(* ===== verification/Prelude.thy ===== *)
theory Prelude
  imports Main "HOL-Library.Word" "HOL-Library.Multiset"
begin

text \<open>
  Shared vocabulary of the development: the names of the model's basic types, the fact
  collections the components fill, Go's 64-bit integer addition, reads of a Go map, and the
  generic lemmas on lists and runs the components share.
\<close>

section \<open>Types of the model\<close>

text \<open>
  A Go \<open>string\<close> and a Go \<open>[]byte\<close> are both sequences of bytes; HOL's \<open>char\<close> is
  one byte, so both are \<open>string\<close>. A \<open>time.Time\<close> is an instant in nanoseconds, a
  \<open>time.Duration\<close> a number of nanoseconds.
\<close>

type_synonym bytes = string
type_synonym instant = int
type_synonym duration = int

abbreviation second :: duration where
  "second \<equiv> 1000000000"

abbreviation minute :: duration where
  "minute \<equiv> 60 * second"

abbreviation hour :: duration where
  "hour \<equiv> 60 * minute"

abbreviation day :: duration where
  "day \<equiv> 24 * hour"

text \<open>
  The two readings of the wall clock one call may make: \<open>time.Since\<close> reads it first, a
  later \<open>time.Now\<close> reads it again.
\<close>

type_synonym clock = "instant \<times> instant"

section \<open>Fact collections\<close>

named_theorems guard_simps \<open>equations of the budget operations\<close>
named_theorems text_simps \<open>equations of the string operations\<close>
named_theorems addr_simps \<open>equations of the address operations\<close>

section \<open>Go integers\<close>

text \<open>Addition on \<open>int64\<close> wraps around in two's complement.\<close>

definition wrap64 :: "int \<Rightarrow> int" where
  "wrap64 x = signed_take_bit 63 x"

lemma wrap64_id: "- (2 ^ 63) \<le> x \<Longrightarrow> x < 2 ^ 63 \<Longrightarrow> wrap64 x = x"
  by (simp add: wrap64_def signed_take_bit_int_eq_self)

lemma wrap64_range: "- (2 ^ 63) \<le> wrap64 x \<and> wrap64 x < 2 ^ 63"
  using signed_take_bit_int_greater_eq_minus_exp [of 63 x] signed_take_bit_int_less_exp [of 63 x]
  by (simp add: wrap64_def)

text \<open>The numeric value of a byte, as Go's \<open>uint8\<close> and as an \<open>int\<close>.\<close>

abbreviation u8 :: "char \<Rightarrow> 8 word" where
  "u8 c \<equiv> of_char c"

abbreviation ord :: "char \<Rightarrow> nat" where
  "ord c \<equiv> of_char c"

lemma ord_less_256: "ord c < 256"
  by simp

section \<open>Go maps with integer values\<close>

text \<open>Reading a missing key of a \<open>map[string]int\<close> gives the zero value.\<close>

definition count_at :: "('k \<rightharpoonup> int) \<Rightarrow> 'k \<Rightarrow> int" where
  "count_at m k = (case m k of None \<Rightarrow> 0 | Some n \<Rightarrow> n)"

lemma count_at_empty [simp]: "count_at Map.empty k = 0"
  by (simp add: count_at_def)

lemma count_at_upd [simp]: "count_at (m(k \<mapsto> n)) j = (if j = k then n else count_at m j)"
  by (simp add: count_at_def)

lemma count_at_del [simp]: "count_at (m(k := None)) j = (if j = k then 0 else count_at m j)"
  by (simp add: count_at_def)

section \<open>Lists\<close>

lemma sum_list_nonneg_int: "\<forall>x \<in> set xs. 0 \<le> x \<Longrightarrow> 0 \<le> sum_list (xs :: int list)"
  by (induction xs) auto

lemma takeWhile_append_stop:
  "\<forall>x \<in> set xs. P x \<Longrightarrow> \<not> P y \<Longrightarrow> takeWhile P (xs @ y # ys) = xs"
  by (induction xs) auto

lemma dropWhile_append_stop:
  "\<forall>x \<in> set xs. P x \<Longrightarrow> \<not> P y \<Longrightarrow> dropWhile P (xs @ y # ys) = y # ys"
  by (induction xs) auto

end
