(* ===== verification/GoText.thy ===== *)
theory GoText
  imports Prelude
begin

text \<open>
  What the Go sources use of the packages \<open>strings\<close> and \<open>strconv\<close>, on byte strings:
  prefixes and suffixes, \<open>Split\<close>, \<open>Fields\<close>, the trimming functions, decimal and
  hexadecimal numbers, \<open>Atoi\<close> and \<open>ParseUint(s, 10, 16)\<close>.
\<close>

section \<open>Prefixes, suffixes, searching\<close>

definition has_prefix :: "string \<Rightarrow> string \<Rightarrow> bool" where
  "has_prefix s p \<longleftrightarrow> take (length p) s = p"

definition has_suffix :: "string \<Rightarrow> string \<Rightarrow> bool" where
  "has_suffix s p \<longleftrightarrow> length p \<le> length s \<and> drop (length s - length p) s = p"

text \<open>\<open>strings.CutPrefix\<close>: the rest and whether the prefix was there.\<close>

definition cut_prefix :: "string \<Rightarrow> string \<Rightarrow> string option" where
  "cut_prefix s p = (if has_prefix s p then Some (drop (length p) s) else None)"

definition trim_suffix :: "string \<Rightarrow> string \<Rightarrow> string" where
  "trim_suffix s p = (if has_suffix s p then take (length s - length p) s else s)"

fun index_byte :: "char \<Rightarrow> string \<Rightarrow> nat option" where
  "index_byte c [] = None"
| "index_byte c (x # xs) = (if x = c then Some 0 else map_option Suc (index_byte c xs))"

fun last_index_byte :: "char \<Rightarrow> string \<Rightarrow> nat option" where
  "last_index_byte c [] = None"
| "last_index_byte c (x # xs) =
     (case last_index_byte c xs of
        Some i \<Rightarrow> Some (Suc i)
      | None \<Rightarrow> if x = c then Some 0 else None)"

lemma has_prefix_append [simp]: "has_prefix (p @ s) p"
  by (simp add: has_prefix_def)

lemma has_prefix_rec [simp]:
  "has_prefix s []" "\<not> has_prefix [] (d # p)"
  "has_prefix (c # s) (d # p) \<longleftrightarrow> c = d \<and> has_prefix s p"
  by (simp_all add: has_prefix_def)

lemma has_prefix_iff: "has_prefix s p \<longleftrightarrow> (\<exists>r. s = p @ r)"
  unfolding has_prefix_def by (metis append_eq_conv_conj append_take_drop_id)

lemma has_suffix_append [simp]: "has_suffix (s @ p) p"
  by (simp add: has_suffix_def)

lemma cut_prefix_append [simp]: "cut_prefix (p @ s) p = Some s"
  by (simp add: cut_prefix_def)

lemma cut_prefix_Some: "cut_prefix s p = Some r \<longleftrightarrow> s = p @ r"
  by (auto simp: cut_prefix_def has_prefix_iff)

lemma trim_suffix_append [simp]: "trim_suffix (s @ p) p = s"
  by (simp add: trim_suffix_def)

lemma index_byte_None [text_simps]: "index_byte c s = None \<longleftrightarrow> c \<notin> set s"
  by (induction s) auto

lemma index_byte_first [text_simps]: "c \<notin> set xs \<Longrightarrow> index_byte c (xs @ c # ys) = Some (length xs)"
  by (induction xs) auto

lemma last_index_byte_None [text_simps]: "last_index_byte c s = None \<longleftrightarrow> c \<notin> set s"
  by (induction s) (auto split: option.splits)

lemma last_index_byte_last [text_simps]:
  "c \<notin> set ys \<Longrightarrow> last_index_byte c (xs @ c # ys) = Some (length xs)"
  by (induction xs) (auto simp: last_index_byte_None split: option.splits)

lemma last_index_byte_Some:
  "last_index_byte c s = Some i \<Longrightarrow> i < length s \<and> s ! i = c \<and> c \<notin> set (drop (Suc i) s)"
proof (induction s arbitrary: i)
  case (Cons x xs)
  then show ?case
    by (auto simp: last_index_byte_None split: option.splits if_splits)
qed simp

section \<open>Splitting at a byte\<close>

text \<open>\<open>strings.Split(s, sep)\<close> for a separator of one byte.\<close>

fun strings_split :: "char \<Rightarrow> string \<Rightarrow> string list" where
  "strings_split c [] = [[]]"
| "strings_split c (x # xs) =
     (if x = c then [] # strings_split c xs
      else (case strings_split c xs of [] \<Rightarrow> [[x]] | w # ws \<Rightarrow> (x # w) # ws))"

lemma split_not_Nil [simp]: "strings_split c s \<noteq> []"
  by (induction s) (auto split: list.splits)

lemma split_word [text_simps]: "c \<notin> set w \<Longrightarrow> strings_split c w = [w]"
  by (induction w) auto

lemma split_step [text_simps]: "c \<notin> set w \<Longrightarrow> strings_split c (w @ c # s) = w # strings_split c s"
  by (induction w) auto

lemma split_pieces: "w \<in> set (strings_split c s) \<Longrightarrow> c \<notin> set w"
  by (induction s arbitrary: w) (auto split: list.splits if_splits)

section \<open>White space\<close>

text \<open>
  The UTF-8 encodings of the runes \<open>unicode.IsSpace\<close> accepts. A multi-byte encoding starts
  with a byte that no other rune's encoding contains later, so looking for them byte by byte
  finds exactly the white space runes of the decoded string.
\<close>

definition spaces :: "string list" where
  "spaces =
     [[CHR 0x09], [CHR 0x0A], [CHR 0x0B], [CHR 0x0C], [CHR 0x0D], [CHR 0x20],
      [CHR 0xC2, CHR 0x85], [CHR 0xC2, CHR 0xA0], [CHR 0xE1, CHR 0x9A, CHR 0x80],
      [CHR 0xE2, CHR 0x80, CHR 0x80], [CHR 0xE2, CHR 0x80, CHR 0x81],
      [CHR 0xE2, CHR 0x80, CHR 0x82], [CHR 0xE2, CHR 0x80, CHR 0x83],
      [CHR 0xE2, CHR 0x80, CHR 0x84], [CHR 0xE2, CHR 0x80, CHR 0x85],
      [CHR 0xE2, CHR 0x80, CHR 0x86], [CHR 0xE2, CHR 0x80, CHR 0x87],
      [CHR 0xE2, CHR 0x80, CHR 0x88], [CHR 0xE2, CHR 0x80, CHR 0x89],
      [CHR 0xE2, CHR 0x80, CHR 0x8A], [CHR 0xE2, CHR 0x80, CHR 0xA8],
      [CHR 0xE2, CHR 0x80, CHR 0xA9], [CHR 0xE2, CHR 0x80, CHR 0xAF],
      [CHR 0xE2, CHR 0x81, CHR 0x9F], [CHR 0xE3, CHR 0x80, CHR 0x80]]"

text \<open>The width of the white space rune a string starts with, 0 when there is none.\<close>

definition space_width :: "string \<Rightarrow> nat" where
  "space_width s = (case find (has_prefix s) spaces of None \<Rightarrow> 0 | Some w \<Rightarrow> length w)"

definition space_width_end :: "string \<Rightarrow> nat" where
  "space_width_end s = (case find (has_suffix s) spaces of None \<Rightarrow> 0 | Some w \<Rightarrow> length w)"

fun fields_from :: "string \<Rightarrow> string \<Rightarrow> string list" where
  "fields_from w [] = (if w = [] then [] else [w])"
| "fields_from w (c # s) =
     (let k = space_width (c # s) in
      if k = 0 then fields_from (w @ [c]) s
      else (if w = [] then [] else [w]) @ fields_from [] (drop (k - 1) s))"

definition strings_fields :: "string \<Rightarrow> string list" where
  "strings_fields s = fields_from [] s"

function trim_left_space :: "string \<Rightarrow> string" where
  "trim_left_space s =
     (if s = [] \<or> space_width s = 0 then s else trim_left_space (drop (space_width s) s))"
  by pat_completeness auto
termination
  by (relation "measure length") auto

function trim_right_space :: "string \<Rightarrow> string" where
  "trim_right_space s =
     (if s = [] \<or> space_width_end s = 0 then s
      else trim_right_space (take (length s - space_width_end s) s))"
  by pat_completeness auto
termination
  by (relation "measure length") auto

declare trim_left_space.simps [simp del] trim_right_space.simps [simp del]

definition trim_space :: "string \<Rightarrow> string" where
  "trim_space s = trim_right_space (trim_left_space s)"

text \<open>\<open>strings.TrimRight\<close> with a cutset of ASCII bytes.\<close>

definition trim_right :: "string \<Rightarrow> string \<Rightarrow> string" where
  "trim_right s cutset = rev (dropWhile (\<lambda>c. c \<in> set cutset) (rev s))"

lemma trim_right_stop [text_simps]:
  "set suf \<subseteq> set cutset \<Longrightarrow> c \<notin> set cutset \<Longrightarrow> trim_right (s @ c # suf) cutset = s @ [c]"
proof -
  assume "set suf \<subseteq> set cutset" and "c \<notin> set cutset"
  then have "dropWhile (\<lambda>c. c \<in> set cutset) (rev suf @ c # rev s) = c # rev s"
    by (intro dropWhile_append_stop) auto
  then show ?thesis by (simp add: trim_right_def)
qed

text \<open>A byte that is printable ASCII starts and ends no white space rune.\<close>

definition graphic :: "char \<Rightarrow> bool" where
  "graphic c \<longleftrightarrow> 33 \<le> ord c \<and> ord c \<le> 126"

lemma spaces_not_graphic:
  assumes "p \<in> set spaces"
  shows "p \<noteq> [] \<and> \<not> graphic (hd p) \<and> \<not> graphic (last p)"
proof -
  have "\<forall>p \<in> set spaces. p \<noteq> [] \<and> \<not> graphic (hd p) \<and> \<not> graphic (last p)"
    by (simp add: spaces_def graphic_def)
  with assms show ?thesis by blast
qed

lemma space_width_graphic:
  assumes "graphic c"
  shows "space_width (c # s) = 0"
proof -
  have "\<not> has_prefix (c # s) p" if "p \<in> set spaces" for p
    using spaces_not_graphic [OF that] assms by (cases p) (auto simp: has_prefix_def)
  then have "find (has_prefix (c # s)) spaces = None" by (auto simp: find_None_iff)
  then show ?thesis by (simp add: space_width_def)
qed

lemma space_width_end_graphic:
  assumes "graphic c"
  shows "space_width_end (s @ [c]) = 0"
proof -
  have "\<not> has_suffix (s @ [c]) p" if "p \<in> set spaces" for p
  proof
    assume "has_suffix (s @ [c]) p"
    then obtain q where "s @ [c] = q @ p"
      unfolding has_suffix_def by (metis append_take_drop_id)
    then have "last p = c" using spaces_not_graphic [OF that] by (metis last_appendR last_snoc)
    with spaces_not_graphic [OF that] assms show False by simp
  qed
  then have "find (has_suffix (s @ [c])) spaces = None" by (auto simp: find_None_iff)
  then show ?thesis by (simp add: space_width_end_def)
qed

lemma fields_from_word:
  "\<forall>c \<in> set v. graphic c \<Longrightarrow> fields_from w (v @ s) = fields_from (w @ v) s"
  by (induction v arbitrary: w) (auto simp: space_width_graphic)

lemma space_width_blank [simp]: "space_width (CHR '' '' # s) = 1"
  by (simp add: space_width_def spaces_def has_prefix_def)

lemma strings_fields_last [text_simps]:
  assumes "\<forall>c \<in> set v. graphic c" and "v \<noteq> []"
  shows "strings_fields v = [v]"
  using fields_from_word [OF assms(1), of "[]" "[]"] assms(2) by (simp add: strings_fields_def)

lemma strings_fields_step [text_simps]:
  assumes "\<forall>c \<in> set v. graphic c" and "v \<noteq> []"
  shows "strings_fields (v @ CHR '' '' # s) = v # strings_fields s"
  using fields_from_word [OF assms(1), of "[]" "CHR '' '' # s"] assms(2) by (simp add: strings_fields_def)

lemma trim_space_graphic [text_simps]:
  assumes "\<forall>c \<in> set s. graphic c"
  shows "trim_space s = s"
proof (cases s rule: rev_cases)
  case Nil
  then show ?thesis by (simp add: trim_space_def trim_left_space.simps trim_right_space.simps)
next
  case (snoc r c)
  have "trim_left_space s = s"
    using assms by (cases s) (simp_all add: trim_left_space.simps space_width_graphic)
  then show ?thesis
    using assms snoc by (simp add: trim_space_def trim_right_space.simps space_width_end_graphic)
qed

end
