(* ===== verification/GoNum.thy ===== *)
theory GoNum
  imports GoText
begin

text \<open>
  Numbers as text: \<open>strconv.Itoa\<close> and the lower-case hexadecimal digits of address
  printing, and the parsers \<open>strconv.Atoi\<close> and \<open>strconv.ParseUint(s, 10, 16)\<close>, with
  their round trips.
\<close>

section \<open>Digits\<close>

definition digit_char :: "nat \<Rightarrow> char" where
  "digit_char d = char_of (if d < 10 then 48 + d else 87 + d)"

definition digit_value :: "char \<Rightarrow> nat option" where
  "digit_value c =
     (if 48 \<le> ord c \<and> ord c \<le> 57 then Some (ord c - 48)
      else if 97 \<le> ord c \<and> ord c \<le> 102 then Some (ord c - 87)
      else if 65 \<le> ord c \<and> ord c \<le> 70 then Some (ord c - 55)
      else None)"

lemma digit_value_char [simp]: "d < 16 \<Longrightarrow> digit_value (digit_char d) = Some d"
  by (auto simp: digit_value_def digit_char_def)

lemma digit_value_bound: "digit_value c = Some d \<Longrightarrow> d < 16"
  by (auto simp: digit_value_def split: if_splits)

lemma digit_value_graphic: "digit_value c = Some d \<Longrightarrow> graphic c"
  by (auto simp: digit_value_def graphic_def split: if_splits)

lemma digit_char_0 [simp]: "digit_char 0 = CHR ''0''"
proof -
  have "ord (digit_char 0) = ord CHR ''0''" by (simp add: digit_char_def)
  then show ?thesis by (simp only: of_char_eq_iff)
qed

lemma digit_char_zero: "d < 16 \<Longrightarrow> digit_char d = CHR ''0'' \<longleftrightarrow> d = 0"
  using digit_value_char [of d] digit_value_char [of 0] by (metis digit_char_0 option.inject zero_less_numeral)

definition decimal :: "char \<Rightarrow> bool" where
  "decimal c \<longleftrightarrow> 48 \<le> ord c \<and> ord c \<le> 57"

lemma decimal_value: "decimal c \<longleftrightarrow> (\<exists>d < 10. digit_value c = Some d)"
  by (auto simp: decimal_def digit_value_def)

section \<open>Printing\<close>

fun num_text :: "nat \<Rightarrow> nat \<Rightarrow> string" where
  "num_text b n =
     (if n < b \<or> b < 2 then [digit_char n] else num_text b (n div b) @ [digit_char (n mod b)])"

declare num_text.simps [simp del]

abbreviation dec :: "nat \<Rightarrow> string" where
  "dec \<equiv> num_text 10"

abbreviation hexa :: "nat \<Rightarrow> string" where
  "hexa \<equiv> num_text 16"

definition itoa :: "int \<Rightarrow> string" where
  "itoa i = (if i < 0 then CHR ''-'' # dec (nat (- i)) else dec (nat i))"

lemma num_text_digits:
  assumes "2 \<le> b" and "b \<le> 16" and "c \<in> set (num_text b n)"
  shows "\<exists>d < b. digit_value c = Some d"
  using assms
proof (induction b n rule: num_text.induct)
  case (1 b n)
  show ?case
  proof (cases "n < b \<or> b < 2")
    case True
    with 1 show ?thesis by (auto simp: num_text.simps [of b n])
  next
    case False
    have "n mod b < b" using 1(2) by simp
    moreover from this 1(3) have "n mod b < 16" by simp
    moreover from False 1(4) have "c \<in> set (num_text b (n div b)) \<or> c = digit_char (n mod b)"
      by (auto simp: num_text.simps [of b n])
    ultimately show ?thesis using 1(1) [OF False 1(2,3)] by auto
  qed
qed

lemma dec_decimal: "c \<in> set (dec n) \<Longrightarrow> decimal c"
  using num_text_digits [of 10 c n] by (simp add: decimal_value)

lemma num_text_graphic: "2 \<le> b \<Longrightarrow> b \<le> 16 \<Longrightarrow> c \<in> set (num_text b n) \<Longrightarrow> graphic c"
  using num_text_digits digit_value_graphic by blast

lemma num_text_not_Nil [simp]: "num_text b n \<noteq> []"
  by (subst num_text.simps) simp

lemma num_text_length:
  assumes "2 \<le> b" and "n < b ^ Suc k"
  shows "length (num_text b n) \<le> Suc k"
  using assms
proof (induction k arbitrary: n)
  case 0
  then show ?case by (subst num_text.simps) simp
next
  case (Suc k)
  show ?case
  proof (cases "n < b")
    case True
    then show ?thesis by (subst num_text.simps) simp
  next
    case False
    have "n div b < b ^ Suc k"
      using Suc.prems by (intro less_mult_imp_div_less) (simp add: mult.commute)
    from Suc.IH [OF Suc.prems(1) this] False Suc.prems(1) show ?thesis
      by (subst num_text.simps) simp
  qed
qed

text \<open>Only the number zero is printed with a leading zero.\<close>

lemma num_text_leading:
  assumes "2 \<le> b" and "b \<le> 16" and "n \<noteq> 0"
  shows "hd (num_text b n) \<noteq> CHR ''0''"
  using assms
proof (induction b n rule: num_text.induct)
  case (1 b n)
  show ?case
  proof (cases "n < b")
    case True
    with 1 show ?thesis by (simp add: num_text.simps [of b n] digit_char_zero)
  next
    case False
    with 1(2) have "n div b \<noteq> 0" by (simp add: div_eq_0_iff)
    with 1 False show ?thesis by (simp add: num_text.simps [of b n])
  qed
qed

lemma num_text_zero: "2 \<le> b \<Longrightarrow> num_text b 0 = ''0''"
  by (simp add: num_text.simps)

section \<open>Parsing\<close>

fun digits_value :: "nat \<Rightarrow> nat \<Rightarrow> string \<Rightarrow> nat option" where
  "digits_value b acc [] = Some acc"
| "digits_value b acc (c # s) =
     (case digit_value c of
        Some d \<Rightarrow> if d < b then digits_value b (acc * b + d) s else None
      | None \<Rightarrow> None)"

lemma digits_value_num_text:
  assumes "2 \<le> b" and "b \<le> 16"
  shows "digits_value b 0 (num_text b n @ s) = digits_value b n s"
  using assms
proof (induction b n arbitrary: s rule: num_text.induct)
  case (1 b n)
  show ?case
  proof (cases "n < b")
    case True
    with 1 show ?thesis by (simp add: num_text.simps [of b n])
  next
    case False
    have "n mod b < b" "n mod b < 16" using 1 by (simp_all add: less_le_trans [of _ b])
    with 1 False show ?thesis by (simp add: num_text.simps [of b n])
  qed
qed

text \<open>\<open>strconv.Atoi\<close> on a 64-bit \<open>int\<close>: an optional sign, then one or more decimal digits.\<close>

definition unsigned_digits :: "string \<Rightarrow> nat option" where
  "unsigned_digits s = (if s = [] then None else digits_value 10 0 s)"

definition atoi :: "string \<Rightarrow> int option" where
  "atoi s =
     (let neg = has_prefix s ''-'';
          s' = (if neg \<or> has_prefix s ''+'' then tl s else s)
      in case unsigned_digits s' of
           None \<Rightarrow> None
         | Some n \<Rightarrow>
             if neg then (if n \<le> 2 ^ 63 then Some (- int n) else None)
             else if n < 2 ^ 63 then Some (int n) else None)"

definition parse_uint16 :: "string \<Rightarrow> nat option" where
  "parse_uint16 s =
     (case unsigned_digits s of
        None \<Rightarrow> None
      | Some n \<Rightarrow> if n < 2 ^ 16 then Some n else None)"

lemma unsigned_digits_dec [simp]: "unsigned_digits (dec n) = Some n"
  using digits_value_num_text [of 10 n "[]"] by (simp add: unsigned_digits_def)

lemma dec_no_sign: "\<not> has_prefix (dec n) ''-''" "\<not> has_prefix (dec n) ''+''"
proof -
  have "hd (dec n) \<in> set (dec n)" by simp
  then have "decimal (hd (dec n))" by (rule dec_decimal)
  then show "\<not> has_prefix (dec n) ''-''" "\<not> has_prefix (dec n) ''+''"
    by (cases "dec n"; auto simp: has_prefix_def decimal_def)+
qed

lemma atoi_dec: "n < 2 ^ 63 \<Longrightarrow> atoi (dec n) = Some (int n)"
  by (simp add: atoi_def dec_no_sign)

lemma atoi_itoa: "- (2 ^ 63) \<le> i \<Longrightarrow> i < 2 ^ 63 \<Longrightarrow> atoi (itoa i) = Some i"
  using atoi_dec [of "nat i"] by (auto simp: itoa_def atoi_def)

lemma parse_uint16_dec: "n < 2 ^ 16 \<Longrightarrow> parse_uint16 (dec n) = Some n"
  by (simp add: parse_uint16_def)

lemma parse_uint16_bound: "parse_uint16 s = Some n \<Longrightarrow> n < 2 ^ 16"
  by (auto simp: parse_uint16_def split: option.splits if_splits)

end
