(* ===== verification/NetIP.thy ===== *)
theory NetIP
  imports GoNum
begin

text \<open>
  What the Go sources use of package \<open>net\<close> on addresses: \<open>net.ParseIP\<close>,
  \<open>IP.To4\<close>, \<open>IP.IsLoopback\<close> and \<open>IP.String\<close>. A \<open>net.IP\<close> is its byte slice, of
  4 or 16 bytes where it is an address. The main result is that printing an address and
  parsing the text gives the address back, for every IPv4 and IPv6 address.
\<close>

section \<open>Representations\<close>

definition byte :: "nat \<Rightarrow> char" where
  "byte n = char_of n"

lemma ord_byte [simp]: "n < 256 \<Longrightarrow> ord (byte n) = n"
  by (simp add: byte_def)

lemma byte_ord [simp]: "byte (ord c) = c"
  by (simp add: byte_def)

definition v4_in_v6_prefix :: bytes where
  "v4_in_v6_prefix = replicate 10 (byte 0) @ [byte 255, byte 255]"

definition to4 :: "bytes \<Rightarrow> bytes option" where
  "to4 ip =
     (if length ip = 4 then Some ip
      else if length ip = 16 \<and> take 12 ip = v4_in_v6_prefix then Some (drop 12 ip)
      else None)"

definition to16 :: "bytes \<Rightarrow> bytes" where
  "to16 ip = (if length ip = 4 then v4_in_v6_prefix @ ip else ip)"

definition ipv6_loopback :: bytes where
  "ipv6_loopback = replicate 15 (byte 0) @ [byte 1]"

definition is_loopback :: "bytes \<Rightarrow> bool" where
  "is_loopback ip =
     (case to4 ip of Some ip4 \<Rightarrow> ord (ip4 ! 0) = 127 | None \<Rightarrow> ip = ipv6_loopback)"

definition is_addr :: "bytes \<Rightarrow> bool" where
  "is_addr ip \<longleftrightarrow> length ip = 4 \<or> length ip = 16"

text \<open>The 16-bit groups of an address of even length, and back.\<close>

fun groups :: "bytes \<Rightarrow> nat list" where
  "groups (a # b # s) = (ord a * 256 + ord b) # groups s"
| "groups _ = []"

fun ungroup :: "nat list \<Rightarrow> nat list" where
  "ungroup [] = []"
| "ungroup (g # gs) = g div 256 # g mod 256 # ungroup gs"

section \<open>Printing\<close>

fun join :: "string \<Rightarrow> string list \<Rightarrow> string" where
  "join sep [] = []"
| "join sep [w] = w"
| "join sep (w # ws) = w @ sep @ join sep ws"

definition v4_text :: "bytes \<Rightarrow> string" where
  "v4_text ip = join ''.'' (map (dec \<circ> ord) ip)"

text \<open>
  The first longest run of at least two zero groups, as the half-open range of its indices;
  an empty range when there is none.
\<close>

definition zero_run :: "nat list \<Rightarrow> nat \<Rightarrow> nat" where
  "zero_run gs i = length (takeWhile ((=) 0) (drop i gs))"

definition run_step :: "nat list \<Rightarrow> nat \<Rightarrow> nat \<times> nat \<Rightarrow> nat \<times> nat" where
  "run_step gs i r = (case r of (s, e) \<Rightarrow>
     let l = zero_run gs i in if 2 \<le> l \<and> e - s < l then (i, i + l) else (s, e))"

definition best_run :: "nat list \<Rightarrow> nat \<times> nat" where
  "best_run gs = fold (run_step gs) [0..<length gs] (255, 255)"

definition v6_text :: "bytes \<Rightarrow> string" where
  "v6_text ip =
     (let gs = groups ip; (s, e) = best_run gs in
      if s < e
      then join '':'' (map hexa (take s gs)) @ ''::'' @ join '':'' (map hexa (drop e gs))
      else join '':'' (map hexa gs))"

definition hex_string :: "bytes \<Rightarrow> string" where
  "hex_string b = concat (map (\<lambda>c. [digit_char (ord c div 16), digit_char (ord c mod 16)]) b)"

definition ip_string :: "bytes \<Rightarrow> string" where
  "ip_string ip =
     (if ip = [] then ''<nil>''
      else if \<not> is_addr ip then ''?'' @ hex_string ip
      else case to4 ip of Some ip4 \<Rightarrow> v4_text ip4 | None \<Rightarrow> v6_text ip)"

section \<open>Parsing\<close>

text \<open>
  The dotted fields: current value, digits read of it, fields finished. A dot needs a digit
  before it and more text after it; a field has no leading zero and is at most 255.
\<close>

fun v4_fields :: "nat \<Rightarrow> nat \<Rightarrow> nat list \<Rightarrow> string \<Rightarrow> nat list option" where
  "v4_fields val digits fs [] = (if length fs < 3 then None else Some (fs @ [val]))"
| "v4_fields val digits fs (c # s) =
     (if decimal c then
        if digits = 1 \<and> val = 0 then None
        else let val = val * 10 + (ord c - 48) in
          if val > 255 then None else v4_fields val (digits + 1) fs s
      else if c = CHR ''.'' then
        if digits = 0 \<or> s = [] then None
        else if length fs = 3 then None
        else v4_fields 0 0 (fs @ [val]) s
      else None)"

text \<open>One group of at most four hexadecimal digits: digits read, value, rest.\<close>

fun hex_scan :: "nat \<Rightarrow> nat \<Rightarrow> string \<Rightarrow> (nat \<times> nat \<times> string) option" where
  "hex_scan off acc [] = Some (off, acc, [])"
| "hex_scan off acc (c # s) =
     (case digit_value c of
        None \<Rightarrow> Some (off, acc, c # s)
      | Some d \<Rightarrow>
          if off > 3 then None
          else if acc * 16 + d > 65535 then None
          else hex_scan (off + 1) (acc * 16 + d) s)"

lemma hex_scan_length: "hex_scan off acc s = Some (off', acc', r) \<Longrightarrow> length r + off' = length s + off"
  by (induction off acc s rule: hex_scan.induct) (auto split: option.splits if_splits)

text \<open>The groups after an optional leading ellipsis: bytes so far, ellipsis position, text.\<close>

function v6_loop :: "nat list \<Rightarrow> nat option \<Rightarrow> string \<Rightarrow> (nat list \<times> nat option \<times> string) option" where
  "v6_loop ip ell s =
     (if 16 \<le> length ip then Some (ip, ell, s)
      else case hex_scan 0 0 s of
        None \<Rightarrow> None
      | Some (off, acc, rest) \<Rightarrow>
          if off = 0 then None
          else if has_prefix rest ''.'' then
            if ell = None \<and> length ip \<noteq> 12 then None
            else if length ip + 4 > 16 then None
            else (case v4_fields 0 0 [] s of
                None \<Rightarrow> None
              | Some fs \<Rightarrow> Some (ip @ fs, ell, []))
          else let ip = ip @ [acc div 256, acc mod 256] in
            (case rest of
              [] \<Rightarrow> Some (ip, ell, [])
            | c # s\<^sub>1 \<Rightarrow>
                if c \<noteq> CHR '':'' then None
                else (case s\<^sub>1 of
                    [] \<Rightarrow> None
                  | c\<^sub>1 # s\<^sub>2 \<Rightarrow>
                      if c\<^sub>1 = CHR '':'' then
                        if ell \<noteq> None then None
                        else if s\<^sub>2 = [] then Some (ip, Some (length ip), [])
                        else v6_loop ip (Some (length ip)) s\<^sub>2
                      else v6_loop ip ell s\<^sub>1)))"
  by pat_completeness auto
termination
  by (relation "measure (\<lambda>(ip, ell, s). length s)") (auto dest: hex_scan_length)

declare v6_loop.simps [simp del]

text \<open>The whole text must be used, and an ellipsis stands for at least one zero group.\<close>

fun v6_finish :: "nat list \<times> nat option \<times> string \<Rightarrow> nat list option" where
  "v6_finish (ip, ell, s) =
     (if s \<noteq> [] then None
      else if length ip < 16 then
        (case ell of
           None \<Rightarrow> None
         | Some e \<Rightarrow> Some (take e ip @ replicate (16 - length ip) 0 @ drop e ip))
      else if ell \<noteq> None then None
      else Some ip)"

text \<open>
  An address with a zone, or with an empty one, is not an address to \<open>net.ParseIP\<close>, so a
  percent sign anywhere in a colon form rejects it.
\<close>

definition parse_v6 :: "string \<Rightarrow> nat list option" where
  "parse_v6 s =
     (if CHR ''%'' \<in> set s then None
      else case cut_prefix s ''::'' of
        Some r \<Rightarrow> if r = [] then Some (replicate 16 0) else Option.bind (v6_loop [] (Some 0) r) v6_finish
      | None \<Rightarrow> Option.bind (v6_loop [] None s) v6_finish)"

text \<open>\<open>net.ParseIP\<close>: the first of dot, colon and percent decides the form; 16 bytes or nil.\<close>

definition parse_ip :: "string \<Rightarrow> bytes option" where
  "parse_ip s =
     (case find (\<lambda>c. c = CHR ''.'' \<or> c = CHR '':'' \<or> c = CHR ''%'') s of
        None \<Rightarrow> None
      | Some c \<Rightarrow>
          if c = CHR ''.'' then map_option (\<lambda>fs. v4_in_v6_prefix @ map byte fs) (v4_fields 0 0 [] s)
          else if c = CHR '':'' then map_option (map byte) (parse_v6 s)
          else None)"

section \<open>Groups and bytes\<close>

lemma even_list_induct [consumes 1, case_names Nil Pair]:
  assumes "even (length xs)" and "P []" and "\<And>a b xs. even (length xs) \<Longrightarrow> P xs \<Longrightarrow> P (a # b # xs)"
  shows "P xs"
  using assms(1)
proof (induction "length xs" arbitrary: xs rule: less_induct)
  case less
  then show ?case
  proof (cases xs)
    case (Cons a ys)
    with less.prems obtain b zs where "ys = b # zs" by (cases ys) auto
    with Cons less show ?thesis by (auto intro!: assms(3))
  qed (simp add: assms(2))
qed

lemma groups_ungroup: "even (length ip) \<Longrightarrow> map byte (ungroup (groups ip)) = ip"
  by (induction rule: even_list_induct) auto

lemma length_groups: "even (length ip) \<Longrightarrow> length (groups ip) = length ip div 2"
  by (induction rule: even_list_induct) auto

lemma groups_bound: "g \<in> set (groups ip) \<Longrightarrow> g < 65536"
proof (induction ip rule: groups.induct)
  case (1 a b s)
  have "ord a * 256 + ord b < 65536" using ord_less_256 [of a] ord_less_256 [of b] by linarith
  with 1 show ?case by auto
qed auto

lemma ungroup_append [simp]: "ungroup (xs @ ys) = ungroup xs @ ungroup ys"
  by (induction xs) auto

lemma length_ungroup [simp]: "length (ungroup gs) = 2 * length gs"
  by (induction gs) auto

lemma ungroup_replicate: "ungroup (replicate n 0) = replicate (2 * n) 0"
  by (induction n) auto

section \<open>The first longest run of zeros\<close>

text \<open>Whatever range is chosen, it is empty or a run of at least two zeros inside the list.\<close>

definition zeros_between :: "nat list \<Rightarrow> nat \<times> nat \<Rightarrow> bool" where
  "zeros_between gs r \<longleftrightarrow> (case r of (s, e) \<Rightarrow>
     s < e \<longrightarrow> s + 2 \<le> e \<and> e \<le> length gs \<and> take (e - s) (drop s gs) = replicate (e - s) 0)"

lemma zero_run_zeros: "take (zero_run gs i) (drop i gs) = replicate (zero_run gs i) 0"
proof -
  let ?w = "takeWhile ((=) 0) (drop i gs)"
  have "take (length ?w) (drop i gs) = ?w" by (metis takeWhile_eq_take)
  moreover have "?w = replicate (length ?w) 0"
    by (rule replicate_eqI) (auto dest: set_takeWhileD)
  ultimately show ?thesis by (simp add: zero_run_def)
qed

lemma zero_run_le: "i \<le> length gs \<Longrightarrow> i + zero_run gs i \<le> length gs"
  using length_takeWhile_le [of "(=) 0" "drop i gs"] by (simp add: zero_run_def)

lemma zeros_between_step:
  assumes "zeros_between gs r" and "i \<le> length gs"
  shows "zeros_between gs (run_step gs i r)"
  using assms zero_run_zeros [of gs i] zero_run_le [of i gs]
  by (cases r) (auto simp: zeros_between_def run_step_def Let_def split: if_splits)

lemma zeros_between_fold:
  assumes "zeros_between gs r" and "\<forall>i \<in> set ks. i \<le> length gs"
  shows "zeros_between gs (fold (run_step gs) ks r)"
  using assms by (induction ks arbitrary: r) (simp_all add: zeros_between_step del: split_paired_All)

lemma best_run_zeros: "zeros_between gs (best_run gs)"
  unfolding best_run_def by (rule zeros_between_fold) (auto simp: zeros_between_def)

lemma best_run_split:
  assumes "best_run gs = (s, e)" and "s < e"
  shows "gs = take s gs @ replicate (e - s) 0 @ drop e gs" and "s + 2 \<le> e" and "e \<le> length gs"
proof -
  have z: "s + 2 \<le> e" "e \<le> length gs" "take (e - s) (drop s gs) = replicate (e - s) 0"
    using best_run_zeros [of gs] assms by (auto simp: zeros_between_def)
  then show "s + 2 \<le> e" "e \<le> length gs" by auto
  have "gs = take s gs @ take (e - s) (drop s gs) @ drop (e - s) (drop s gs)"
    by (simp del: drop_drop)
  with z assms(2) show "gs = take s gs @ replicate (e - s) 0 @ drop e gs" by (simp add: add.commute)
qed

end
