(* ===== verification/NetIP_RoundTrip.thy ===== *)
theory NetIP_RoundTrip
  imports NetIP
begin

text \<open>
  \<open>net.ParseIP\<close> reads back what \<open>IP.String\<close> prints: for dotted IPv4, for IPv6 with and
  without a compressed run of zeros, and for the IPv4-mapped form.
\<close>

section \<open>Dotted form\<close>

lemma digits_value_mono: "1 \<le> b \<Longrightarrow> digits_value b acc w = Some v \<Longrightarrow> acc \<le> v"
proof (induction b acc w rule: digits_value.induct)
  case (2 b acc c s)
  then obtain d where "acc * b + d \<le> v" by (auto split: option.splits if_splits)
  moreover have "acc * 1 \<le> acc * b" using 2(2) by (rule mult_le_mono2)
  ultimately show ?case by linarith
qed simp

lemma v4_fields_digits:
  assumes "digits_value 10 val w = Some v" and "v \<le> 255"
    and "if digits = 0 then val = 0 \<and> (2 \<le> length w \<longrightarrow> hd w \<noteq> CHR ''0'') else 0 < val \<or> w = []"
  shows "v4_fields val digits fs (w @ s) = v4_fields v (digits + length w) fs s"
  using assms
proof (induction w arbitrary: val digits)
  case (Cons c w)
  then obtain d where d: "digit_value c = Some d" "d < 10" "digits_value 10 (val * 10 + d) w = Some v"
    by (auto split: option.splits if_splits)
  have o: "decimal c" "ord c = 48 + d"
    using d(1,2) by (auto simp: decimal_def digit_value_def split: if_splits)
  moreover have "c = CHR ''0'' \<longleftrightarrow> ord c = ord CHR ''0''" by (simp only: of_char_eq_iff)
  ultimately have c: "decimal c" "ord c = 48 + d" "d = 0 \<longleftrightarrow> c = CHR ''0''" by simp_all
  have "val * 10 + d \<le> 255" using digits_value_mono [OF _ d(3)] Cons.prems(2) by simp
  moreover have "v4_fields (val * 10 + d) (digits + 1) fs (w @ s) = v4_fields v (digits + 1 + length w) fs s"
    using Cons.prems(2,3) d(3) c by (intro Cons.IH) (auto simp: Suc_le_eq split: if_splits)
  ultimately show ?case using Cons.prems(3) c by (auto split: if_splits)
qed simp

lemma v4_fields_dec:
  assumes "n \<le> 255"
  shows "v4_fields 0 0 fs (dec n @ s) = v4_fields n (length (dec n)) fs s"
proof -
  have "digits_value 10 0 (dec n) = Some n" using digits_value_num_text [of 10 n "[]"] by simp
  moreover have "2 \<le> length (dec n) \<longrightarrow> hd (dec n) \<noteq> CHR ''0''"
    using num_text_leading [of 10 n] by (cases "n = 0") (auto simp: num_text_zero)
  ultimately show ?thesis using v4_fields_digits [of 0 "dec n" n 0 fs s] assms by simp
qed

lemma v4_fields_dot:
  "v4_fields n (length (dec n)) fs (CHR ''.'' # s) =
     (if s = [] \<or> length fs = 3 then None else v4_fields 0 0 (fs @ [n]) s)"
  by (simp add: decimal_def)

lemma v4_fields_text:
  assumes "length ip = 4"
  shows "v4_fields 0 0 [] (v4_text ip) = Some (map ord ip)"
proof -
  obtain a b c d where ip: "ip = [a, b, c, d]"
    using assms by (auto simp: numeral_eq_Suc length_Suc_conv)
  have le: "ord x \<le> 255" for x using ord_less_256 [of x] by linarith
  have last: "v4_fields 0 0 fs (dec (ord d)) = v4_fields (ord d) (length (dec (ord d))) fs []" for fs
    using v4_fields_dec [OF le, of fs d "[]"] by simp
  show ?thesis
    by (simp add: ip v4_text_def v4_fields_dec [OF le] v4_fields_dot last del: v4_fields.simps(2))
qed

lemma v4_text_chars: "x \<in> set (v4_text ip) \<Longrightarrow> decimal x \<or> x = CHR ''.''"
proof (induction ip)
  case (Cons a ip)
  then show ?case by (cases ip) (auto simp: v4_text_def dest: dec_decimal)
qed (simp add: v4_text_def)

lemma v4_text_dot: "length ip = 4 \<Longrightarrow> CHR ''.'' \<in> set (v4_text ip)"
  by (cases ip rule: remdups_adj.cases) (simp_all add: v4_text_def)

lemma find_first:
  assumes "x \<in> set s" and "P x" and "\<forall>y \<in> set s. y \<noteq> x \<longrightarrow> \<not> P y"
  shows "find P s = Some x"
  using assms by (induction s) auto

lemma parse_v4_text:
  assumes "length ip = 4"
  shows "parse_ip (v4_text ip) = Some (v4_in_v6_prefix @ ip)"
proof -
  have "find (\<lambda>c. c = CHR ''.'' \<or> c = CHR '':'' \<or> c = CHR ''%'') (v4_text ip) = Some CHR ''.''"
    using v4_text_dot [OF assms] by (intro find_first) (auto dest!: v4_text_chars simp: decimal_def)
  then show ?thesis by (simp add: parse_ip_def v4_fields_text [OF assms] comp_def)
qed

section \<open>Colon form\<close>

lemma hex_scan_digits:
  assumes "digits_value 16 acc w = Some v" and "off + length w \<le> 4" and "v < 65536"
    and "rest = [] \<or> digit_value (hd rest) = None"
  shows "hex_scan off acc (w @ rest) = Some (off + length w, v, rest)"
  using assms
proof (induction w arbitrary: off acc)
  case Nil
  then show ?case by (cases rest) auto
next
  case (Cons c w)
  then obtain d where d: "digit_value c = Some d" "digits_value 16 (acc * 16 + d) w = Some v"
    by (auto split: option.splits if_splits)
  have "acc * 16 + d \<le> v" using d(2) by (rule digits_value_mono [rotated]) simp
  with Cons d show ?case by simp
qed

lemma hex_scan_hexa:
  assumes "g < 65536" and "rest = [] \<or> digit_value (hd rest) = None"
  shows "hex_scan 0 0 (hexa g @ rest) = Some (length (hexa g), g, rest)"
proof -
  have "digits_value 16 0 (hexa g) = Some g" using digits_value_num_text [of 16 g "[]"] by simp
  moreover have "length (hexa g) \<le> 4" using num_text_length [of 16 g 3] assms(1) by simp
  ultimately show ?thesis using hex_scan_digits [of 0 "hexa g" g 0 rest] assms by simp
qed

lemma digit_value_colon: "digit_value CHR '':'' = None"
  by (simp add: digit_value_def)

text \<open>One group of the loop, by what follows it.\<close>

lemma v6_loop_last:
  assumes "g < 65536" and "length ip < 16"
  shows "v6_loop ip ell (hexa g) = Some (ip @ [g div 256, g mod 256], ell, [])"
  using hex_scan_hexa [OF assms(1), of "[]"] assms(2)
  by (simp add: v6_loop.simps [of ip ell "hexa g"])

lemma v6_loop_group:
  assumes "g < 65536" and "length ip < 16" and "s \<noteq> []" and "hd s \<noteq> CHR '':''"
  shows "v6_loop ip ell (hexa g @ CHR '':'' # s) = v6_loop (ip @ [g div 256, g mod 256]) ell s"
proof -
  obtain c s' where s: "s = c # s'" "c \<noteq> CHR '':''" using assms(3,4) by (cases s) auto
  show ?thesis
    using hex_scan_hexa [OF assms(1), of "CHR '':'' # c # s'"] assms(2) s(2)
    by (simp add: s(1) v6_loop.simps [of ip ell "hexa g @ CHR '':'' # c # s'"] digit_value_colon)
qed

lemma v6_loop_ellipsis:
  assumes "g < 65536" and "length ip < 16"
  shows "v6_loop ip None (hexa g @ CHR '':'' # CHR '':'' # s) =
    (let ip = ip @ [g div 256, g mod 256] in
     if s = [] then Some (ip, Some (length ip), []) else v6_loop ip (Some (length ip)) s)"
  using hex_scan_hexa [OF assms(1), of "CHR '':'' # CHR '':'' # s"] assms(2)
  by (simp add: v6_loop.simps [of ip None "hexa g @ CHR '':'' # CHR '':'' # s"] digit_value_colon)

abbreviation group_text :: "nat list \<Rightarrow> string" where
  "group_text gs \<equiv> join '':'' (map hexa gs)"

lemma hexa_chars: "c \<in> set (hexa n) \<Longrightarrow> \<exists>d. digit_value c = Some d"
  using num_text_digits [of 16 c n] by auto

lemma group_text_chars: "c \<in> set (group_text gs) \<Longrightarrow> c = CHR '':'' \<or> (\<exists>d. digit_value c = Some d)"
proof (induction gs)
  case (Cons g gs)
  then show ?case by (cases gs) (auto dest: hexa_chars)
qed simp

lemma group_text_Cons: "gs \<noteq> [] \<Longrightarrow> join '':'' (hexa g # map hexa gs) = hexa g @ CHR '':'' # group_text gs"
  by (cases gs) auto

lemma hd_hexa: "hd (hexa g @ r) \<noteq> CHR '':''"
  using hexa_chars [of "hd (hexa g)" g] by (auto simp: digit_value_colon)

lemma group_text_not_Nil: "gs \<noteq> [] \<Longrightarrow> group_text gs \<noteq> []"
  by (cases gs rule: remdups_adj.cases) auto

lemma group_text_hd: "gs \<noteq> [] \<Longrightarrow> hd (group_text gs @ r) \<noteq> CHR '':''"
  using hd_hexa by (cases gs rule: remdups_adj.cases) auto

lemma v6_loop_groups:
  assumes "gs \<noteq> []" and "\<forall>g \<in> set gs. g < 65536" and "length ip + 2 * length gs \<le> 16"
  shows "v6_loop ip ell (group_text gs) = Some (ip @ ungroup gs, ell, [])"
  using assms
proof (induction gs arbitrary: ip)
  case (Cons g gs)
  show ?case
  proof (cases "gs = []")
    case True
    with Cons.prems show ?thesis by (simp add: v6_loop_last)
  next
    case False
    have "v6_loop ip ell (group_text (g # gs)) = v6_loop (ip @ [g div 256, g mod 256]) ell (group_text gs)"
      using Cons.prems group_text_not_Nil [OF False] group_text_hd [OF False, of "[]"]
      by (simp add: group_text_Cons [OF False] v6_loop_group)
    also have "\<dots> = Some (ip @ ungroup (g # gs), ell, [])"
      using Cons.prems False by (subst Cons.IH) auto
    finally show ?thesis .
  qed
qed simp

lemma v6_loop_compressed:
  assumes "pre \<noteq> []" and "\<forall>g \<in> set (pre @ post). g < 65536"
    and "length ip + 2 * length (pre @ post) < 16"
  shows "v6_loop ip None (group_text pre @ ''::'' @ group_text post) =
    Some (ip @ ungroup (pre @ post), Some (length ip + 2 * length pre), [])"
  using assms
proof (induction pre arbitrary: ip)
  case (Cons g pre)
  show ?case
  proof (cases "pre = []")
    case True
    show ?thesis
    proof (cases "post = []")
      case True
      with \<open>pre = []\<close> Cons.prems show ?thesis by (simp add: v6_loop_ellipsis)
    next
      case False
      with \<open>pre = []\<close> Cons.prems show ?thesis
        using group_text_not_Nil [OF False] by (simp add: v6_loop_ellipsis v6_loop_groups)
    qed
  next
    case False
    have "v6_loop ip None (group_text (g # pre) @ ''::'' @ group_text post) =
      v6_loop (ip @ [g div 256, g mod 256]) None (group_text pre @ ''::'' @ group_text post)"
      using Cons.prems group_text_not_Nil [OF False] group_text_hd [OF False]
      by (simp add: group_text_Cons [OF False] v6_loop_group)
    also have "\<dots> = Some (ip @ ungroup ((g # pre) @ post), Some (length ip + 2 * length (g # pre)), [])"
      using Cons.prems False by (subst Cons.IH) auto
    finally show ?thesis .
  qed
qed simp

lemma group_text_no_ellipsis: "gs \<noteq> [] \<Longrightarrow> cut_prefix (group_text gs @ r) ''::'' = None"
  using group_text_not_Nil [of gs] group_text_hd [of gs r]
  by (cases "group_text gs") (auto simp: cut_prefix_def)

lemma percent_not_in_groups: "CHR ''%'' \<notin> set (group_text gs)"
  by (auto dest!: group_text_chars simp: digit_value_def)

lemma parse_v6_plain:
  assumes "length gs = 8" and "\<forall>g \<in> set gs. g < 65536"
  shows "parse_v6 (group_text gs) = Some (ungroup gs)"
proof -
  have "gs \<noteq> []" using assms(1) by auto
  then show ?thesis
    using v6_loop_groups [of gs "[]" None] assms group_text_no_ellipsis [of gs "[]"]
    by (simp add: parse_v6_def percent_not_in_groups)
qed

lemma parse_v6_compressed:
  assumes "\<forall>g \<in> set (pre @ post). g < 65536" and "length (pre @ post) < 8"
  shows "parse_v6 (group_text pre @ ''::'' @ group_text post) =
    Some (ungroup pre @ replicate (16 - 2 * length (pre @ post)) 0 @ ungroup post)"
proof (cases "pre = []")
  case True
  then show ?thesis
    using v6_loop_groups [of post "[]" "Some 0"] assms group_text_not_Nil [of post]
      cut_prefix_append [of "''::''" "group_text post"]
    by (cases "post = []") (auto simp: parse_v6_def percent_not_in_groups)
next
  case False
  then show ?thesis
    using v6_loop_compressed [OF False, of post "[]"] assms
      group_text_no_ellipsis [OF False, of "''::'' @ group_text post"]
    by (simp add: parse_v6_def percent_not_in_groups)
qed

lemma parse_v6_text:
  assumes "length ip = 16"
  shows "parse_v6 (v6_text ip) = Some (map ord ip)"
proof -
  let ?gs = "groups ip"
  have gs: "length ?gs = 8" "\<forall>g \<in> set ?gs. g < 65536" "ungroup ?gs = map ord ip"
  proof -
    show "length ?gs = 8" "\<forall>g \<in> set ?gs. g < 65536"
      using assms by (auto simp: length_groups groups_bound)
    have "map ord (map byte (ungroup ?gs)) = map ord ip" using assms by (simp add: groups_ungroup)
    moreover have "\<forall>x \<in> set (ungroup gs). x < 256" if "\<forall>g \<in> set gs. g < 65536" for gs
      using that by (induction gs) (auto simp: div_less_iff_less_mult)
    then have "map (ord \<circ> byte) (ungroup ?gs) = ungroup ?gs"
      using \<open>\<forall>g \<in> set ?gs. g < 65536\<close> by (intro map_idI) auto
    ultimately show "ungroup ?gs = map ord ip" by simp
  qed
  obtain s e where r: "best_run ?gs = (s, e)" by fastforce
  show ?thesis
  proof (cases "s < e")
    case False
    then show ?thesis using parse_v6_plain [OF gs(1,2)] r gs(3) by (simp add: v6_text_def Let_def)
  next
    case True
    note sp = best_run_split [OF r True]
    have in_gs: "\<forall>g \<in> set (take s ?gs @ drop e ?gs). g < 65536"
      using gs(2) by (auto dest: in_set_takeD in_set_dropD)
    have len: "length (take s ?gs @ drop e ?gs) = 8 - (e - s)" and s: "s \<le> 8" "e \<le> 8"
      using sp gs(1) True by auto
    have "v6_text ip = group_text (take s ?gs) @ ''::'' @ group_text (drop e ?gs)"
      using r True by (simp add: v6_text_def Let_def)
    then have "parse_v6 (v6_text ip) =
      Some (ungroup (take s ?gs) @ replicate (16 - 2 * (8 - (e - s))) 0 @ ungroup (drop e ?gs))"
      using parse_v6_compressed [OF in_gs] len sp(2) by simp
    also have "16 - 2 * (8 - (e - s)) = 2 * (e - s)" using s by linarith
    also have "replicate (2 * (e - s)) (0 :: nat) = ungroup (replicate (e - s) 0)"
      by (simp add: ungroup_replicate)
    also have "ungroup (take s ?gs) @ ungroup (replicate (e - s) 0) @ ungroup (drop e ?gs) = ungroup ?gs"
      by (metis sp(1) ungroup_append)
    finally show ?thesis using gs(3) by simp
  qed
qed

lemma v6_text_chars: "c \<in> set (v6_text ip) \<Longrightarrow> c = CHR '':'' \<or> (\<exists>d. digit_value c = Some d)"
  by (auto simp: v6_text_def Let_def split: prod.splits if_splits dest!: group_text_chars)

lemma v6_text_colon:
  assumes "length ip = 16"
  shows "CHR '':'' \<in> set (v6_text ip)"
proof -
  have "length (groups ip) = 8" using assms by (simp add: length_groups)
  then obtain g gs where "groups ip = g # gs" "length gs = 7" by (cases "groups ip") auto
  then have gs: "groups ip = g # gs" "gs \<noteq> []" by auto
  obtain s e where r: "best_run (groups ip) = (s, e)" by fastforce
  show ?thesis
    by (cases "s < e") (simp_all add: v6_text_def r Let_def, simp add: gs group_text_Cons)
qed

lemma parse_ip_v6_text:
  assumes "length ip = 16"
  shows "parse_ip (v6_text ip) = Some ip"
proof -
  have "find (\<lambda>c. c = CHR ''.'' \<or> c = CHR '':'' \<or> c = CHR ''%'') (v6_text ip) = Some CHR '':''"
    using v6_text_colon [OF assms]
    by (intro find_first) (auto dest!: v6_text_chars simp: digit_value_def)
  then show ?thesis by (simp add: parse_ip_def parse_v6_text [OF assms] comp_def)
qed

section \<open>All addresses\<close>

lemma length_v4_prefix [simp]: "length v4_in_v6_prefix = 12"
  by (simp add: v4_in_v6_prefix_def)

lemma to4_Some: "to4 ip = Some ip4 \<Longrightarrow> length ip4 = 4 \<and> to16 ip = v4_in_v6_prefix @ ip4"
  by (auto simp: to4_def to16_def split: if_splits) (metis append_take_drop_id)

lemma to4_to16 [simp]: "to4 (to16 ip) = to4 ip"
  by (simp add: to4_def to16_def)

lemma length_to16: "is_addr ip \<Longrightarrow> length (to16 ip) = 16"
  by (auto simp: is_addr_def to16_def)

lemma is_addr_to16: "is_addr ip \<Longrightarrow> is_addr (to16 ip)"
  by (simp add: is_addr_def length_to16)

lemma to16_idem [simp]: "to16 (to16 ip) = to16 ip"
  by (simp add: to16_def)

theorem parse_ip_string:
  assumes "is_addr ip"
  shows "parse_ip (ip_string ip) = Some (to16 ip)"
proof (cases "to4 ip")
  case None
  then have "length ip = 16" using assms by (auto simp: is_addr_def to4_def split: if_splits)
  then show ?thesis using None by (auto simp: ip_string_def is_addr_def to16_def parse_ip_v6_text)
next
  case (Some ip4)
  have "ip_string ip = v4_text ip4" using Some assms by (auto simp: ip_string_def is_addr_def)
  then show ?thesis using to4_Some [OF Some] by (simp add: parse_v4_text)
qed

text \<open>The text does not tell the 4-byte form of an address from the mapped 16-byte form.\<close>

lemma ip_string_to16: "is_addr ip \<Longrightarrow> ip_string (to16 ip) = ip_string ip"
proof (cases "to4 ip")
  case None
  assume "is_addr ip"
  with None have "to16 ip = ip" by (auto simp: is_addr_def to4_def to16_def split: if_splits)
  then show ?thesis by simp
next
  case (Some ip4)
  assume a: "is_addr ip"
  then have "ip \<noteq> []" "to16 ip \<noteq> []" using length_to16 [OF a] by (auto simp: is_addr_def)
  then show ?thesis using Some a is_addr_to16 [OF a] by (simp add: ip_string_def)
qed

lemma is_loopback_to16: "is_addr ip \<Longrightarrow> is_loopback (to16 ip) = is_loopback ip"
proof (cases "to4 ip")
  case None
  assume "is_addr ip"
  with None have "to16 ip = ip" by (auto simp: is_addr_def to4_def to16_def split: if_splits)
  then show ?thesis by simp
qed (simp add: is_loopback_def)

text \<open>What \<open>net.ParseIP\<close> returns is always the 16-byte form.\<close>

lemma v4_fields_length: "v4_fields v d fs s = Some r \<Longrightarrow> length fs \<le> 3 \<Longrightarrow> length r = 4"
  by (induction v d fs s rule: v4_fields.induct) (auto simp: Let_def split: if_splits)

definition within :: "nat option \<Rightarrow> nat \<Rightarrow> bool" where
  "within ell n \<longleftrightarrow> (\<forall>e. ell = Some e \<longrightarrow> e \<le> n)"

lemma within_simps [simp]: "within None n" "within (Some e) n \<longleftrightarrow> e \<le> n"
  by (simp_all add: within_def)

lemma within_mono: "within ell n \<Longrightarrow> n \<le> m \<Longrightarrow> within ell m"
  by (auto simp: within_def)

lemma v6_loop_length:
  assumes "v6_loop ip ell s = Some (ip', ell', r)" and "even (length ip)" and "length ip \<le> 16"
    and "within ell (length ip)"
  shows "length ip' \<le> 16 \<and> within ell' (length ip')"
  using assms
proof (induction "length s" arbitrary: ip ell s rule: less_induct)
  case less
  show ?case
  proof (cases "16 \<le> length ip")
    case True
    with less.prems show ?thesis by (auto simp: v6_loop.simps [of ip ell s])
  next
    case False
    then have room: "length ip + 2 \<le> 16" using less.prems(2) by presburger
    obtain off acc rest where h: "hex_scan 0 0 s = Some (off, acc, rest)"
      using less.prems(1) False by (auto simp: v6_loop.simps [of ip ell s] split: option.splits)
    note IH = less.hyps [rotated]
    show ?thesis
      using less.prems False room hex_scan_length [OF h]
      by (auto simp: v6_loop.simps [of ip ell s] h Let_def dest: v4_fields_length
          split: option.splits if_splits list.splits dest!: IH intro: within_mono)
  qed
qed

lemma parse_v6_length:
  assumes "parse_v6 s = Some r"
  shows "length r = 16"
proof -
  have fin: "length r = 16" if "v6_loop [] ell t = Some x" "v6_finish x = Some r" "within ell 0" for ell t x
    using that v6_loop_length [of "[]" ell t] by (cases x) (auto split: if_splits option.splits)
  show ?thesis
    using assms
    by (auto simp: parse_v6_def bind_eq_Some_conv split: if_splits option.splits intro: fin)
qed

lemma parse_ip_length: "parse_ip s = Some ip \<Longrightarrow> length ip = 16"
  by (auto simp: parse_ip_def dest: v4_fields_length parse_v6_length split: option.splits if_splits)

lemma parse_ip_addr: "parse_ip s = Some ip \<Longrightarrow> is_addr ip \<and> to16 ip = ip"
  by (auto simp: is_addr_def to16_def dest: parse_ip_length)

end
