(* ===== verification/Address.thy ===== *)
theory Address
  imports NetIP_RoundTrip
begin

text \<open>
  Client addresses: \<open>net.SplitHostPort\<close> and the text of a socket address, and the source's
  \<open>normalizeAddress\<close>, \<open>clientAddress\<close> (\<open>observe.go\<close>) and \<open>addressOf\<close>
  (\<open>main.go\<close>). The keys they produce are what ties a session seen on UDP to the page that
  asks about it over TCP.
\<close>

section \<open>Socket addresses as text\<close>

text \<open>\<open>net.TCPAddr\<close> and \<open>net.UDPAddr\<close> have the same fields and the same text.\<close>

record sock_addr =
  sa_ip :: bytes
  sa_port :: int
  sa_zone :: string

definition join_host_port :: "string \<Rightarrow> string \<Rightarrow> string" where
  "join_host_port host port =
     (if CHR '':'' \<in> set host then ''['' @ host @ '']:'' @ port else host @ '':'' @ port)"

definition sock_text :: "sock_addr \<Rightarrow> string" where
  "sock_text a =
     (let ip = (if sa_ip a = [] then '''' else ip_string (sa_ip a)) in
      join_host_port (if sa_zone a \<noteq> '''' then ip @ ''%'' @ sa_zone a else ip) (itoa (sa_port a)))"

text \<open>\<open>net.SplitHostPort\<close>, with its error text on the left.\<close>

definition split_checked :: "nat \<Rightarrow> nat \<Rightarrow> string \<Rightarrow> string \<Rightarrow> string \<Rightarrow> string + string \<times> string" where
  "split_checked j k hostport host port =
     (if CHR ''['' \<in> set (drop j hostport) then Inl ''unexpected '[' in address''
      else if CHR '']'' \<in> set (drop k hostport) then Inl ''unexpected ']' in address''
      else Inr (host, port))"

definition split_host_port :: "string \<Rightarrow> string + string \<times> string" where
  "split_host_port hostport =
     (case last_index_byte CHR '':'' hostport of
        None \<Rightarrow> Inl ''missing port in address''
      | Some i \<Rightarrow>
          if hostport ! 0 = CHR ''['' then
            (case index_byte CHR '']'' hostport of
               None \<Rightarrow> Inl ''missing ']' in address''
             | Some e \<Rightarrow>
                 if e + 1 = length hostport then Inl ''missing port in address''
                 else if e + 1 = i
                   then split_checked 1 (e + 1) hostport (take (e - 1) (drop 1 hostport)) (drop (i + 1) hostport)
                 else if hostport ! (e + 1) = CHR '':'' then Inl ''too many colons in address''
                 else Inl ''missing port in address'')
          else if CHR '':'' \<in> set (take i hostport) then Inl ''too many colons in address''
          else split_checked 0 0 hostport (take i hostport) (drop (i + 1) hostport))"

section \<open>Request headers\<close>

text \<open>
  \<open>http.Header\<close>: the values under a canonical key. \<open>Get\<close> canonicalises its argument and
  returns the first value, or the empty string.
\<close>

type_synonym header = "string \<rightharpoonup> string list"

definition to_upper :: "char \<Rightarrow> char" where
  "to_upper c = (if 97 \<le> ord c \<and> ord c \<le> 122 then char_of (ord c - 32) else c)"

definition to_lower :: "char \<Rightarrow> char" where
  "to_lower c = (if 65 \<le> ord c \<and> ord c \<le> 90 then char_of (ord c + 32) else c)"

fun canonical_from :: "bool \<Rightarrow> string \<Rightarrow> string" where
  "canonical_from up [] = []"
| "canonical_from up (c # s) =
     (if up then to_upper c else to_lower c) # canonical_from (c = CHR ''-'') s"

definition header_get :: "header \<Rightarrow> string \<Rightarrow> string" where
  "header_get h k = (case h (canonical_from True k) of Some (v # _) \<Rightarrow> v | _ \<Rightarrow> '''')"

declare canonical_from.simps [simp del]

lemma header_get_proxy [addr_simps]:
  "header_get h ''Fly-Client-IP'' = (case h ''Fly-Client-Ip'' of Some (v # _) \<Rightarrow> v | _ \<Rightarrow> '''')"
  "header_get h ''X-Forwarded-For'' = (case h ''X-Forwarded-For'' of Some (v # _) \<Rightarrow> v | _ \<Rightarrow> '''')"
proof -
  have keys: "canonical_from True ''Fly-Client-IP'' = ''Fly-Client-Ip''"
    "canonical_from True ''X-Forwarded-For'' = ''X-Forwarded-For''"
    by code_simp+
  show "header_get h ''Fly-Client-IP'' = (case h ''Fly-Client-Ip'' of Some (v # _) \<Rightarrow> v | _ \<Rightarrow> '''')"
    "header_get h ''X-Forwarded-For'' = (case h ''X-Forwarded-For'' of Some (v # _) \<Rightarrow> v | _ \<Rightarrow> '''')"
    by (simp_all add: header_get_def keys)
qed

section \<open>The source's address keys\<close>

definition normalizeAddress :: "string \<Rightarrow> string" where
  "normalizeAddress address =
     (case parse_ip address of
        None \<Rightarrow> address
      | Some ip \<Rightarrow>
          if is_loopback ip then ''127.0.0.1''
          else (case to4 ip of Some v4 \<Rightarrow> ip_string v4 | None \<Rightarrow> ip_string ip))"

definition addressOf :: "string \<Rightarrow> string" where
  "addressOf remote =
     (case split_host_port remote of
        Inl _ \<Rightarrow> normalizeAddress remote
      | Inr (host, _) \<Rightarrow> normalizeAddress host)"

definition clientAddress :: "header \<Rightarrow> string \<Rightarrow> string" where
  "clientAddress h remoteAddr =
     (let ip = header_get h ''Fly-Client-IP'' in
      if ip \<noteq> '''' then normalizeAddress ip
      else let forwarded = header_get h ''X-Forwarded-For'' in
        if forwarded \<noteq> '''' then normalizeAddress (trim_space (strings_split CHR '','' forwarded ! 0))
        else addressOf remoteAddr)"

section \<open>Splitting what was joined\<close>

lemma split_join_host_port:
  assumes "CHR ''['' \<notin> set host" "CHR '']'' \<notin> set host"
    and "CHR '':'' \<notin> set port" "CHR ''['' \<notin> set port" "CHR '']'' \<notin> set port"
  shows "split_host_port (join_host_port host port) = Inr (host, port)"
proof (cases "CHR '':'' \<in> set host")
  case False
  have "(host @ CHR '':'' # port) ! 0 \<noteq> CHR ''[''" using assms(1) by (cases host) auto
  then show ?thesis
    using False assms
    by (simp add: split_host_port_def join_host_port_def last_index_byte_last split_checked_def)
next
  case True
  let ?s = "CHR ''['' # host @ CHR '']'' # CHR '':'' # port"
  have "last_index_byte CHR '':'' ?s = Some (length host + 2)"
    using last_index_byte_last [OF assms(3), of "CHR ''['' # host @ [CHR '']'']"] by simp
  moreover have "index_byte CHR '']'' ?s = Some (length host + 1)"
    using index_byte_first [of "CHR '']''" "CHR ''['' # host" "CHR '':'' # port"] assms(2) by simp
  ultimately show ?thesis
    using True assms by (simp add: split_host_port_def join_host_port_def split_checked_def)
qed

lemma ip_string_chars:
  assumes "is_addr ip" and "c \<in> set (ip_string ip)"
  shows "c = CHR ''.'' \<or> c = CHR '':'' \<or> (\<exists>d. digit_value c = Some d)"
proof -
  have "ip \<noteq> []" using assms(1) by (auto simp: is_addr_def)
  then show ?thesis
    using assms
    by (auto simp: ip_string_def decimal_value split: option.splits dest!: v4_text_chars v6_text_chars)
qed

lemma ip_string_not_Nil: "is_addr ip \<Longrightarrow> ip_string ip \<noteq> ''''"
  using parse_ip_string [of ip] by (auto simp: parse_ip_def)

lemma itoa_chars: "c \<in> set (itoa i) \<Longrightarrow> c = CHR ''-'' \<or> decimal c"
  by (auto simp: itoa_def split: if_splits dest: dec_decimal)

section \<open>The key of an address\<close>

definition address_key :: "bytes \<Rightarrow> string" where
  "address_key ip = (if is_loopback ip then ''127.0.0.1'' else ip_string ip)"

lemma ip_string_to4: "is_addr ip \<Longrightarrow> to4 ip = Some v4 \<Longrightarrow> ip_string v4 = ip_string ip"
  by (auto simp: ip_string_def is_addr_def dest: to4_Some) (auto simp: to4_def)

lemma normalizeAddress_parsed:
  "parse_ip a = Some ip \<Longrightarrow> normalizeAddress a = address_key ip"
  using parse_ip_addr [of a ip]
  by (auto simp: normalizeAddress_def address_key_def ip_string_to4 split: option.splits)

lemma normalizeAddress_unparsed: "parse_ip a = None \<Longrightarrow> normalizeAddress a = a"
  by (simp add: normalizeAddress_def)

lemma address_key_to16: "is_addr ip \<Longrightarrow> address_key (to16 ip) = address_key ip"
  by (simp add: address_key_def is_loopback_to16 ip_string_to16)

lemma normalizeAddress_ip_string: "is_addr ip \<Longrightarrow> normalizeAddress (ip_string ip) = address_key ip"
  using normalizeAddress_parsed [OF parse_ip_string] address_key_to16 by simp

definition loopback_v4 :: bytes where
  "loopback_v4 = [byte 127, byte 0, byte 0, byte 1]"

lemma is_addr_loopback: "is_addr loopback_v4"
  by (simp add: is_addr_def loopback_v4_def)

lemma loopback_text: "ip_string loopback_v4 = ''127.0.0.1''"
  by code_simp

lemma parse_loopback: "parse_ip ''127.0.0.1'' = Some (to16 loopback_v4)"
  using parse_ip_string [OF is_addr_loopback] unfolding loopback_text .

lemma is_loopback_v4: "is_loopback (to16 loopback_v4)"
  unfolding is_loopback_to16 [OF is_addr_loopback] by (simp add: loopback_v4_def is_loopback_def to4_def)

lemma parse_address_key:
  assumes "is_addr ip"
  shows "parse_ip (address_key ip) = Some (if is_loopback ip then to16 loopback_v4 else to16 ip)"
  using parse_ip_string [OF assms] parse_loopback by (simp add: address_key_def)

lemma address_key_eq:
  assumes "is_addr ip" "is_addr ip'"
  shows "address_key ip = address_key ip' \<longleftrightarrow> to16 ip = to16 ip' \<or> is_loopback ip \<and> is_loopback ip'"
proof
  assume "address_key ip = address_key ip'"
  then have "parse_ip (address_key ip) = parse_ip (address_key ip')" by simp
  then show "to16 ip = to16 ip' \<or> is_loopback ip \<and> is_loopback ip'"
    using is_loopback_v4 is_loopback_to16 [OF assms(1)] is_loopback_to16 [OF assms(2)]
    by (auto simp: parse_address_key assms split: if_splits)
next
  assume "to16 ip = to16 ip' \<or> is_loopback ip \<and> is_loopback ip'"
  then show "address_key ip = address_key ip'"
  proof
    assume "to16 ip = to16 ip'"
    then show ?thesis using address_key_to16 assms by metis
  qed (simp add: address_key_def)
qed

lemma addressOf_sock:
  assumes "is_addr (sa_ip a)" and "sa_zone a = ''''"
  shows "addressOf (sock_text a) = address_key (sa_ip a)"
proof -
  have ne: "sa_ip a \<noteq> []" using assms(1) by (auto simp: is_addr_def)
  have "split_host_port (join_host_port (ip_string (sa_ip a)) (itoa (sa_port a))) =
    Inr (ip_string (sa_ip a), itoa (sa_port a))"
    by (rule split_join_host_port)
      (auto dest!: ip_string_chars [OF assms(1)] itoa_chars simp: digit_value_def decimal_def)
  then show ?thesis
    using assms ne by (simp add: addressOf_def sock_text_def normalizeAddress_ip_string)
qed

section \<open>Properties\<close>

text \<open>
  Normalising an address twice is normalising it once, for every string: the key of an
  address is its own key.
\<close>

lemma normalizeAddress_idem: "normalizeAddress (normalizeAddress a) = normalizeAddress a"
proof (cases "parse_ip a")
  case None
  then show ?thesis by (simp add: normalizeAddress_unparsed)
next
  case (Some ip)
  note ip = parse_ip_addr [OF Some]
  have "parse_ip (normalizeAddress a) = Some (if is_loopback ip then to16 loopback_v4 else ip)"
    using ip parse_address_key [of ip] by (simp add: normalizeAddress_parsed [OF Some])
  moreover have "address_key (to16 loopback_v4) = address_key ip" if "is_loopback ip"
    using that is_loopback_v4 by (simp add: address_key_def)
  ultimately show ?thesis
    by (auto simp: normalizeAddress_parsed [OF Some] dest!: normalizeAddress_parsed split: if_splits)
qed

text \<open>
  C36: Two spellings get the same key exactly when they are the same address (in particular the
  IPv4 and the IPv4-mapped spelling of one) or both loopback; text that is no IP address keeps
  itself as key and shares it with no other text.
\<close>

theorem normalizeAddress_eq_iff:
  "normalizeAddress a = normalizeAddress b \<longleftrightarrow>
    (case (parse_ip a, parse_ip b) of
       (Some ip, Some ip') \<Rightarrow> ip = ip' \<or> is_loopback ip \<and> is_loopback ip'
     | (None, None) \<Rightarrow> a = b
     | _ \<Rightarrow> False)"
proof -
  have key: "parse_ip (normalizeAddress x) \<noteq> None" if "parse_ip x = Some ip" for x ip
    using parse_ip_addr [OF that] parse_address_key [of ip] by (simp add: normalizeAddress_parsed [OF that])
  show ?thesis
  proof (cases "parse_ip a"; cases "parse_ip b")
    fix ip ip' assume p: "parse_ip a = Some ip" "parse_ip b = Some ip'"
    then show ?thesis
      using address_key_eq [of ip ip'] parse_ip_addr [OF p(1)] parse_ip_addr [OF p(2)]
      by (simp add: normalizeAddress_parsed)
  next
    fix ip assume p: "parse_ip a = None" "parse_ip b = Some ip"
    then show ?thesis using key [OF p(2)] by (auto simp: normalizeAddress_unparsed)
  next
    fix ip assume p: "parse_ip a = Some ip" "parse_ip b = None"
    then show ?thesis using key [OF p(1)] by (auto simp: normalizeAddress_unparsed)
  qed (simp add: normalizeAddress_unparsed)
qed

text \<open>
  The key of a peer's socket address, as \<open>RemoteAddr().String()\<close> writes it with its port
  and, for IPv6, its brackets, is the key of the address alone: \<open>addressOf\<close> depends neither
  on the port nor on which of the 4-byte and 16-byte forms the socket reports.
\<close>

lemma addressOf_socket:
  assumes "is_addr ip"
  shows "addressOf (sock_text \<lparr>sa_ip = ip, sa_port = p, sa_zone = ''''\<rparr>) = normalizeAddress (ip_string ip) \<and>
    addressOf (sock_text \<lparr>sa_ip = to16 ip, sa_port = q, sa_zone = ''''\<rparr>) = normalizeAddress (ip_string ip)"
  using assms by (simp add: addressOf_sock normalizeAddress_ip_string address_key_to16 is_addr_to16)

text \<open>Blanks around an entry of a header, as proxies write them, and what is left without them.\<close>

definition blank :: "string \<Rightarrow> bool" where
  "blank s \<longleftrightarrow> set s \<subseteq> {CHR '' '', CHR 0x09}"

definition stripped :: "string \<Rightarrow> bool" where
  "stripped x \<longleftrightarrow> x = '''' \<or> graphic (hd x) \<and> graphic (last x)"

lemma width_blank:
  "space_width (CHR '' '' # s) = 1" "space_width (CHR 0x09 # s) = 1"
  "space_width_end (s @ '' '') = 1" "space_width_end (s @ [CHR 0x09]) = 1"
  by (simp_all add: space_width_def space_width_end_def spaces_def has_prefix_def has_suffix_def)

lemma trim_left_blank:
  assumes "blank pre"
  shows "trim_left_space (pre @ s) = trim_left_space s"
  using assms
proof (induction pre)
  case (Cons c pre)
  then have c: "c = CHR '' '' \<or> c = CHR 0x09" and p: "blank pre" by (simp_all add: blank_def)
  have "space_width (c # pre @ s) = 1" using c width_blank(1,2) by blast
  then have "trim_left_space (c # pre @ s) = trim_left_space (pre @ s)"
    by (subst trim_left_space.simps) simp
  with Cons.IH [OF p] show ?case by simp
qed simp

lemma trim_right_blank:
  assumes "blank post"
  shows "trim_right_space (s @ post) = trim_right_space s"
  using assms
proof (induction post rule: rev_induct)
  case (snoc c post)
  then have c: "c = CHR '' '' \<or> c = CHR 0x09" and p: "blank post" by (simp_all add: blank_def)
  have "space_width_end ((s @ post) @ [c]) = 1" using c width_blank(3,4) [of "s @ post"] by blast
  then have "trim_right_space ((s @ post) @ [c]) = trim_right_space (s @ post)"
    by (subst trim_right_space.simps) simp
  with snoc.IH [OF p] show ?case by simp
qed simp

lemma trim_space_padded:
  assumes "blank pre" and "blank post" and "stripped x"
  shows "trim_space (pre @ x @ post) = x"
proof (cases "x = ''''")
  case True
  have "trim_left_space post = ''''"
    using trim_left_blank [OF assms(2), of "''''"] by (simp add: trim_left_space.simps)
  with True show ?thesis by (simp add: trim_space_def trim_left_blank [OF assms(1)] trim_right_space.simps)
next
  case False
  then have g: "graphic (hd x)" "graphic (last x)" using assms(3) by (simp_all add: stripped_def)
  have "trim_left_space (x @ post) = x @ post"
    using False g(1) by (cases x) (simp_all add: trim_left_space.simps space_width_graphic)
  moreover have "trim_right_space x = x"
    using False space_width_end_graphic [OF g(2), of "butlast x"] by (simp add: trim_right_space.simps [of x])
  ultimately show ?thesis
    by (simp add: trim_space_def trim_left_blank [OF assms(1)] trim_right_blank [OF assms(2)])
qed

text \<open>
  Where a request carries the text the page looks its client up by: in \<open>Fly-Client-IP\<close> if that
  header has a value, as it stands; else in the first entry of \<open>X-Forwarded-For\<close> if that has
  one, be it the only entry or not, without the blanks around it; else in the connection's own
  address, without its port if it has one. A header that is absent, has no value or an empty
  one is passed over.
\<close>

definition carries :: "header \<Rightarrow> string \<Rightarrow> string \<Rightarrow> bool" where
  "carries h remote x \<longleftrightarrow>
     (let fly = header_get h ''Fly-Client-IP''; forwarded = header_get h ''X-Forwarded-For'' in
      if fly \<noteq> '''' then x = fly
      else if forwarded \<noteq> '''' then
        \<exists>pre post rest. blank pre \<and> blank post \<and> stripped x \<and> CHR '','' \<notin> set x \<and>
          forwarded = pre @ x @ post @ rest \<and> (rest = '''' \<or> (\<exists>hops. rest = CHR '','' # hops))
      else (\<exists>port. split_host_port remote = Inr (x, port)) \<or> (\<exists>e. split_host_port remote = Inl e) \<and> x = remote)"

lemma first_entry:
  assumes "blank pre" and "blank post" and "CHR '','' \<notin> set x" and "rest = '''' \<or> (\<exists>hops. rest = CHR '','' # hops)"
  shows "strings_split CHR '','' (pre @ x @ post @ rest) ! 0 = pre @ x @ post"
proof -
  have c: "CHR '','' \<notin> set (pre @ x @ post)" using assms(1-3) by (auto simp: blank_def)
  then show ?thesis using assms(4) split_word [OF c] split_step [OF c] by auto
qed

text \<open>
  C37: The page's lookup key on every branch: a \<open>Fly-Client-IP\<close> value decides alone, else the
  first entry of \<open>X-Forwarded-For\<close> with the blanks around it removed, else the connection's own
  address; empty headers are passed over. The key is the normalized form of that text, and when
  it is the text of an address, the key a UDP listener records for that address.
\<close>

theorem clientAddress_key:
  assumes "carries h remote x"
  shows "clientAddress h remote = normalizeAddress x \<and>
    (\<forall>ip q. is_addr ip \<longrightarrow> x = ip_string ip \<longrightarrow>
      clientAddress h remote = addressOf (sock_text \<lparr>sa_ip = ip, sa_port = q, sa_zone = ''''\<rparr>))"
proof -
  let ?fly = "header_get h ''Fly-Client-IP''" and ?f = "header_get h ''X-Forwarded-For''"
  have "clientAddress h remote = normalizeAddress x"
  proof -
    consider "?fly \<noteq> ''''" | "?fly = ''''" "?f \<noteq> ''''" | "?fly = ''''" "?f = ''''" by blast
    then show ?thesis
    proof cases
      case 2
      then obtain pre post rest where f: "blank pre" "blank post" "stripped x" "CHR '','' \<notin> set x" "?f = pre @ x @ post @ rest"
          "rest = '''' \<or> (\<exists>hops. rest = CHR '','' # hops)"
        using assms by (auto simp: carries_def)
      with 2 show ?thesis by (simp add: clientAddress_def Let_def first_entry trim_space_padded)
    qed (use assms in \<open>auto simp: carries_def clientAddress_def addressOf_def Let_def\<close>)
  qed
  then show ?thesis by (simp add: addressOf_sock normalizeAddress_ip_string)
qed

theorem clientAddress_key_witness:
  "clientAddress [''Fly-Client-Ip'' \<mapsto> [''''], ''X-Forwarded-For'' \<mapsto> ['' 127.0.0.1 , 10.1.1.1'']] ''172.16.0.9:51000'' =
    addressOf (sock_text \<lparr>sa_ip = loopback_v4, sa_port = 1, sa_zone = ''''\<rparr>)"
proof -
  let ?h = "[''Fly-Client-Ip'' \<mapsto> [''''], ''X-Forwarded-For'' \<mapsto> ['' 127.0.0.1 , 10.1.1.1'']]"
  have "carries ?h ''172.16.0.9:51000'' (ip_string loopback_v4)"
    unfolding carries_def header_get_proxy Let_def loopback_text
    by (simp add: blank_def stripped_def graphic_def)
      (rule exI [of _ "'' ''"], rule conjI, simp, rule exI [of _ "'' ''"], rule conjI, simp, rule exI [of _ "'', 10.1.1.1''"], simp)
  from clientAddress_key [OF this] is_addr_loopback show ?thesis by blast
qed

text \<open>
  The lookup key is whatever address the request's \<open>Fly-Client-IP\<close> header names, for
  every connection: the connection's own address, which the PROXY header restored, plays no
  part once the header is present.
\<close>

lemma clientAddress_header_wins:
  assumes "h ''Fly-Client-Ip'' = Some (claimed # vs)" and "claimed \<noteq> ''''"
  shows "clientAddress h remote = normalizeAddress claimed"
  using assms by (simp add: clientAddress_def header_get_proxy)

end
