(* ===== verification/Proxy_Facts.thy ===== *)
theory Proxy_Facts
  imports Proxy
begin

text \<open>
  The abstract specification of the PROXY reader, a function of the bytes that arrive before
  the deadline, and the refinement: the buffered readers of \<open>Proxy\<close> compute it whatever
  segments the bytes arrive in, always return, and leave every later byte in place. Then the
  two header versions: what a well-formed header of each yields.
\<close>

section \<open>Bytes before and after the deadline\<close>

definition in_time :: "instant \<Rightarrow> (instant \<times> bytes) list \<Rightarrow> bytes" where
  "in_time d as = concat (map snd (takeWhile (\<lambda>x. fst x \<le> d) as))"

definition too_late :: "instant \<Rightarrow> (instant \<times> bytes) list \<Rightarrow> bytes" where
  "too_late d as = concat (map snd (dropWhile (\<lambda>x. fst x \<le> d) as))"

definition avail :: "instant \<Rightarrow> reader \<Rightarrow> bytes" where
  "avail d r = buffered r @ in_time d (arrivals (conn r))"

definition pending :: "reader \<Rightarrow> bytes" where
  "pending r = buffered r @ concat (map snd (arrivals (conn r)))"

lemma pending_split: "pending r = avail d r @ too_late d (arrivals (conn r))"
  unfolding pending_def avail_def in_time_def too_late_def append_assoc
  by (metis concat_append map_append takeWhile_dropWhile_id)

text \<open>A reader standing before its deadline, and what reading may change of it.\<close>

definition waits :: "instant \<Rightarrow> reader \<Rightarrow> bool" where
  "waits d r \<longleftrightarrow> deadline (conn r) = Some d \<and> clk r \<le> d"

definition advanced :: "instant \<Rightarrow> reader \<Rightarrow> reader \<Rightarrow> bool" where
  "advanced d r r' \<longleftrightarrow> waits d r' \<and> clk r \<le> clk r' \<and> peer (conn r') = peer (conn r) \<and>
     too_late d (arrivals (conn r')) = too_late d (arrivals (conn r))"

lemma advanced_refl: "waits d r \<Longrightarrow> advanced d r r"
  by (simp add: advanced_def)

lemma advanced_trans: "advanced d r r' \<Longrightarrow> advanced d r' r'' \<Longrightarrow> advanced d r r''"
  by (auto simp: advanced_def)

lemma advanced_waits: "advanced d r r' \<Longrightarrow> waits d r'"
  by (simp add: advanced_def)

lemma advanced_buffered [simp]:
  "advanced d r (r'\<lparr>buffered := b\<rparr>) = advanced d r r'" "advanced d (r\<lparr>buffered := b\<rparr>) r' = advanced d r r'"
  "waits d (r\<lparr>buffered := b\<rparr>) = waits d r"
  by (simp_all add: advanced_def waits_def)

lemma conn_read_waits:
  assumes "waits d r"
  obtains (data) b r' where "conn_read r = Some (Some b, r')" "advanced d r r'"
      "avail d (r'\<lparr>buffered := buffered r @ b\<rparr>) = avail d r" "avail d r' = buffered r @ in_time d (arrivals (conn r'))"
      "in_time d (arrivals (conn r)) = b @ in_time d (arrivals (conn r'))"
  | (failed) r' where "conn_read r = Some (None, r')" "advanced d r r'" "buffered r' = buffered r"
      "in_time d (arrivals (conn r)) = []" "in_time d (arrivals (conn r')) = []"
proof (cases "arrivals (conn r)")
  case Nil
  then show thesis
    using assms that(2)
    by (cases "closes (conn r)") (auto simp: conn_read_def Let_def waits_def advanced_def in_time_def)
next
  case (Cons x rest)
  obtain t b where x: "x = (t, b)" by fastforce
  show thesis
  proof (cases "t \<le> d")
    case True
    with Cons x assms show thesis
      by (intro that(1) [of b "r\<lparr>clk := max (clk r) t, conn := (conn r)\<lparr>arrivals := rest\<rparr>\<rparr>"])
        (auto simp: conn_read_def Let_def waits_def advanced_def in_time_def too_late_def avail_def)
  next
    case False
    with Cons x assms show thesis
      by (intro that(2) [of "r\<lparr>clk := max (clk r) d\<rparr>"])
        (auto simp: conn_read_def Let_def waits_def advanced_def in_time_def too_late_def)
  qed
qed

section \<open>The buffered operations, on bytes\<close>

lemma peek_spec:
  assumes "waits d r"
  shows "\<exists>r'. peek n r = Some (if n \<le> length (avail d r) then Some (take n (avail d r)) else None, r') \<and>
    advanced d r r' \<and> avail d r' = avail d r"
  using assms
proof (induction n r rule: peek.induct)
  case (1 n r)
  show ?case
  proof (cases "n \<le> length (buffered r)")
    case True
    with 1(2) show ?thesis
      by (simp add: peek.simps [of n r] avail_def advanced_refl)
  next
    case False
    from 1(2) show ?thesis
    proof (cases rule: conn_read_waits)
      case (data b r')
      let ?r = "r'\<lparr>buffered := buffered r @ b\<rparr>"
      have "waits d ?r" using data(2) by (simp add: advanced_waits)
      from 1(1) [OF False data(1) refl refl this] obtain r'' where
        "peek n ?r = Some (if n \<le> length (avail d ?r) then Some (take n (avail d ?r)) else None, r'')"
        "advanced d ?r r''" "avail d r'' = avail d ?r" by blast
      with False data show ?thesis
        by (auto simp: peek.simps [of n r] intro: advanced_trans)
    next
      case (failed r')
      with False show ?thesis by (simp add: peek.simps [of n r] avail_def)
    qed
  qed
qed

lemma index_byte_split:
  "index_byte c s = Some i \<Longrightarrow> i < length s \<and> s ! i = c \<and> c \<notin> set (take i s)"
  by (induction s arbitrary: i) (auto split: if_splits)

lemma index_byte_append: "index_byte c s = Some i \<Longrightarrow> index_byte c (s @ t) = Some i"
  by (induction s arbitrary: i) (auto split: if_splits)

lemma read_string_spec:
  assumes "waits d r"
  shows "\<exists>r'. advanced d r r' \<and>
    (case index_byte c (avail d r) of
       Some i \<Rightarrow> read_string c r = Some (Some (take (i + 1) (avail d r)), r') \<and> avail d r' = drop (i + 1) (avail d r)
     | None \<Rightarrow> read_string c r = Some (None, r') \<and> avail d r' = [])"
  using assms
proof (induction c r rule: read_string.induct)
  case (1 c r)
  show ?case
  proof (cases "index_byte c (buffered r)")
    case (Some i)
    then have "i < length (buffered r)" by (simp add: index_byte_split)
    with Some 1(2) show ?thesis
      by (intro exI [of _ "r\<lparr>buffered := drop (i + 1) (buffered r)\<rparr>"])
        (auto simp: read_string.simps [of c r] avail_def index_byte_append advanced_refl)
  next
    case None
    from 1(2) show ?thesis
    proof (cases rule: conn_read_waits)
      case (data b r')
      let ?r = "r'\<lparr>buffered := buffered r @ b\<rparr>"
      have "waits d ?r" using data(2) by (simp add: advanced_waits)
      from 1(1) [OF None data(1) refl refl this] obtain r'' where
        "advanced d ?r r''" and "case index_byte c (avail d ?r) of
          Some i \<Rightarrow> read_string c ?r = Some (Some (take (i + 1) (avail d ?r)), r'') \<and> avail d r'' = drop (i + 1) (avail d ?r)
        | None \<Rightarrow> read_string c ?r = Some (None, r'') \<and> avail d r'' = []" by blast
      moreover from data(2) this(1) have "advanced d r r''" by (simp add: advanced_trans [of d r r'])
      ultimately show ?thesis
        using None data by (intro exI [of _ r'']) (simp add: read_string.simps [of c r] split: option.splits)
    next
      case (failed r')
      with None show ?thesis
        by (intro exI [of _ "r'\<lparr>buffered := []\<rparr>"])
          (auto simp: read_string.simps [of c r] avail_def)
    qed
  qed
qed

lemma readFull_spec:
  assumes "waits d r" and "length got \<le> len"
  shows "\<exists>r'. advanced d r r' \<and>
    (if len \<le> length got + length (avail d r)
     then readFull len got r = Some (Inr (got @ take (len - length got) (avail d r)), r') \<and>
       avail d r' = drop (len - length got) (avail d r)
     else readFull len got r = Some (Inl (got @ avail d r), r') \<and> avail d r' = [])"
  using assms
proof (induction len got r rule: readFull.induct)
  case (1 len got r)
  show ?case
  proof (cases "length got < len")
    case False
    with 1(2,3) show ?thesis by (auto simp: readFull.simps [of len got r] advanced_refl)
  next
    case True
    let ?k = "len - length got"
    show ?thesis
    proof (cases "buffered r = []")
      case False
      let ?b = "take ?k (buffered r)" and ?r = "r\<lparr>buffered := drop ?k (buffered r)\<rparr>"
      have rd: "reader_read ?k r = Some (Some ?b, ?r)" using False by (simp add: reader_read_def)
      have "waits d ?r" "length (got @ ?b) \<le> len" using 1(2) True by auto
      from 1(1) [OF True rd refl refl this] obtain r' where "advanced d r r'" and
        h: "if len \<le> length (got @ ?b) + length (avail d ?r)
          then readFull len (got @ ?b) ?r = Some (Inr ((got @ ?b) @ take (len - length (got @ ?b)) (avail d ?r)), r') \<and>
            avail d r' = drop (len - length (got @ ?b)) (avail d ?r)
          else readFull len (got @ ?b) ?r = Some (Inl ((got @ ?b) @ avail d ?r), r') \<and> avail d r' = []" by auto
      have av: "?b @ avail d ?r = avail d r" by (simp add: avail_def)
      have "length ?b + length (avail d ?r) = length (avail d r)" using av by (metis length_append)
      with h rd True \<open>advanced d r r'\<close> show ?thesis
        by (intro exI [of _ r'])
          (auto simp: readFull.simps [of len got r] avail_def min_def split: if_splits)
    next
      case True': True
      from 1(2) show ?thesis
      proof (cases rule: conn_read_waits)
        case (data b r')
        let ?b = "take ?k b" and ?r = "r'\<lparr>buffered := drop ?k b\<rparr>"
        have rd: "reader_read ?k r = Some (Some ?b, ?r)" using True True' data(1) by (simp add: reader_read_def)
        have "waits d ?r" "length (got @ ?b) \<le> len" using data(2) True by (auto simp: advanced_waits)
        from 1(1) [OF True rd refl refl this] obtain r'' where "advanced d r' r''" and
          h: "if len \<le> length (got @ ?b) + length (avail d ?r)
            then readFull len (got @ ?b) ?r = Some (Inr ((got @ ?b) @ take (len - length (got @ ?b)) (avail d ?r)), r'') \<and>
              avail d r'' = drop (len - length (got @ ?b)) (avail d ?r)
            else readFull len (got @ ?b) ?r = Some (Inl ((got @ ?b) @ avail d ?r), r'') \<and> avail d r'' = []" by auto
        have "avail d r = b @ in_time d (arrivals (conn r'))" using data(5) True' by (simp add: avail_def)
        moreover have "advanced d r r''" using data(2) \<open>advanced d r' r''\<close> by (rule advanced_trans)
        ultimately show ?thesis using h rd True
          by (intro exI [of _ r''])
            (auto simp: readFull.simps [of len got r] avail_def min_def split: if_splits)
      next
        case (failed r')
        have "reader_read ?k r = Some (None, r')" using True True' failed(1) by (simp add: reader_read_def)
        with failed True True' show ?thesis
          by (intro exI [of _ r']) (auto simp: readFull.simps [of len got r] avail_def)
      qed
    qed
  qed
qed

lemma readFull_all:
  assumes "waits d r"
  shows "\<exists>r'. advanced d r r' \<and>
    (if len \<le> length (avail d r)
     then readFull len [] r = Some (Inr (take len (avail d r)), r') \<and> avail d r' = drop len (avail d r)
     else readFull len [] r = Some (Inl (avail d r), r') \<and> avail d r' = [])"
  using readFull_spec [OF assms, of "[]" len] by (cases "len \<le> length (avail d r)") simp_all

section \<open>The header, as a function of the bytes in time\<close>

definition v1_spec :: "bytes \<Rightarrow> sock_addr option \<times> bytes" where
  "v1_spec bs =
     (case index_byte (CHR 0x0A) bs of
        None \<Rightarrow> (None, [])
      | Some i \<Rightarrow> (v1_address (take (i + 1) bs), drop (i + 1) bs))"

definition v2_spec :: "bytes \<Rightarrow> sock_addr option \<times> bytes" where
  "v2_spec bs =
     (if length bs < 16 then (None, [])
      else let header = take 16 bs; body = drop 16 bs; len = uint16_be (take 2 (drop 14 header)) in
        if length body < len then (None, []) else (v2_address header (take len body), drop len body))"

definition header_spec :: "bytes \<Rightarrow> sock_addr option \<times> bytes" where
  "header_spec bs =
     (if length bs < 12 then (None, bs)
      else if take 12 bs = proxyV2Signature then v2_spec bs
      else if take 6 bs = proxyV1Prefix then v1_spec bs
      else (None, bs))"

lemma length_signature [simp]: "length proxyV2Signature = 12"
  by (simp add: proxyV2Signature_def)

lemma length_v1_prefix [simp]: "length proxyV1Prefix = 6"
  by (simp add: proxyV1Prefix_def)

lemma readProxyV1_spec:
  assumes "waits d r"
  shows "\<exists>r'. readProxyV1 r = Some (fst (v1_spec (avail d r)), r') \<and> advanced d r r' \<and>
    avail d r' = snd (v1_spec (avail d r))"
proof -
  obtain r' where "advanced d r r'" and "case index_byte (CHR 0x0A) (avail d r) of
       Some i \<Rightarrow> read_string (CHR 0x0A) r = Some (Some (take (i + 1) (avail d r)), r') \<and> avail d r' = drop (i + 1) (avail d r)
     | None \<Rightarrow> read_string (CHR 0x0A) r = Some (None, r') \<and> avail d r' = []"
    using read_string_spec [OF assms] by blast
  then show ?thesis
    by (intro exI [of _ r']) (simp add: readProxyV1_def v1_spec_def split: option.splits)
qed

lemma readProxyV2_spec:
  assumes "waits d r"
  shows "\<exists>r'. readProxyV2 r = Some (fst (v2_spec (avail d r)), r') \<and> advanced d r r' \<and>
    avail d r' = snd (v2_spec (avail d r))"
proof -
  obtain r\<^sub>1 where r\<^sub>1: "advanced d r r\<^sub>1" "if 16 \<le> length (avail d r)
      then readFull 16 [] r = Some (Inr (take 16 (avail d r)), r\<^sub>1) \<and> avail d r\<^sub>1 = drop 16 (avail d r)
      else readFull 16 [] r = Some (Inl (avail d r), r\<^sub>1) \<and> avail d r\<^sub>1 = []"
    using readFull_all [OF assms, of 16] by blast
  show ?thesis
  proof (cases "16 \<le> length (avail d r)")
    case False
    with r\<^sub>1 show ?thesis by (intro exI [of _ r\<^sub>1]) (simp add: readProxyV2_def v2_spec_def)
  next
    case True
    let ?len = "uint16_be (take 2 (drop 14 (take 16 (avail d r))))"
    obtain r\<^sub>2 where r\<^sub>2: "advanced d r\<^sub>1 r\<^sub>2" "if ?len \<le> length (avail d r\<^sub>1)
        then readFull ?len [] r\<^sub>1 = Some (Inr (take ?len (avail d r\<^sub>1)), r\<^sub>2) \<and> avail d r\<^sub>2 = drop ?len (avail d r\<^sub>1)
        else readFull ?len [] r\<^sub>1 = Some (Inl (avail d r\<^sub>1), r\<^sub>2) \<and> avail d r\<^sub>2 = []"
      using readFull_all [OF advanced_waits [OF r\<^sub>1(1)], of ?len] by blast
    have "advanced d r r\<^sub>2" using r\<^sub>1(1) r\<^sub>2(1) by (rule advanced_trans)
    with r\<^sub>1(2) r\<^sub>2(2) True show ?thesis
      by (intro exI [of _ r\<^sub>2]) (simp add: readProxyV2_def v2_spec_def Let_def split: if_splits)
  qed
qed

lemma readProxyHeader_spec:
  assumes "waits d r"
  shows "\<exists>r'. readProxyHeader r = Some (fst (header_spec (avail d r)), r') \<and> advanced d r r' \<and>
    avail d r' = snd (header_spec (avail d r))"
proof -
  let ?A = "avail d r"
  obtain r\<^sub>1 where r\<^sub>1: "peek 12 r = Some (if 12 \<le> length ?A then Some (take 12 ?A) else None, r\<^sub>1)"
      "advanced d r r\<^sub>1" "avail d r\<^sub>1 = ?A"
    using peek_spec [OF assms] by blast
  note w = advanced_waits [OF r\<^sub>1(2)]
  consider "\<not> 12 \<le> length ?A" | "12 \<le> length ?A" "take 12 ?A = proxyV2Signature"
    | "12 \<le> length ?A" "take 12 ?A \<noteq> proxyV2Signature" "take 6 ?A = proxyV1Prefix"
    | "12 \<le> length ?A" "take 12 ?A \<noteq> proxyV2Signature" "take 6 ?A \<noteq> proxyV1Prefix" by blast
  then show ?thesis
  proof cases
    case 2
    then show ?thesis
      using readProxyV2_spec [OF w] r\<^sub>1 by (auto simp: readProxyHeader_def header_spec_def intro: advanced_trans)
  next
    case 3
    then show ?thesis
      using readProxyV1_spec [OF w] r\<^sub>1
      by (auto simp: readProxyHeader_def header_spec_def take_take min_def intro: advanced_trans)
  qed (use r\<^sub>1 in \<open>auto simp: readProxyHeader_def header_spec_def take_take min_def\<close>)
qed

text \<open>
  The wrapped connection: made in at most ten seconds, with the deadline cleared again, the
  address of the header if there was a good one, and every byte that is not part of the
  header still to be read, in order.
\<close>

lemma newProxyConn_spec:
  fixes now c
  defines "A \<equiv> in_time (now + 10 * second) (arrivals c)"
  shows "\<exists>w. newProxyConn now c = Some w \<and> remote w = fst (header_spec A) \<and>
    pending (rd w) = snd (header_spec A) @ too_late (now + 10 * second) (arrivals c) \<and>
    deadline (conn (rd w)) = None \<and> peer (conn (rd w)) = peer c \<and>
    now \<le> clk (rd w) \<and> clk (rd w) \<le> now + 10 * second"
proof -
  let ?d = "now + 10 * second"
  let ?r = "set_read_deadline (Some ?d) \<lparr>clk = now, buffered = [], conn = c\<rparr>"
  have w: "waits ?d ?r" and A: "avail ?d ?r = A"
    by (simp_all add: waits_def set_read_deadline_def avail_def A_def)
  obtain r' where r': "readProxyHeader ?r = Some (fst (header_spec A), r')" "advanced ?d ?r r'"
      "avail ?d r' = snd (header_spec A)"
    using readProxyHeader_spec [OF w] A by auto
  have "pending (set_read_deadline None r') = pending r'" by (simp add: pending_def set_read_deadline_def)
  with r' show ?thesis
    by (simp add: newProxyConn_def Let_def pending_split [of r' ?d] advanced_def waits_def)
      (simp add: set_read_deadline_def)
qed

section \<open>Well-formed headers\<close>

text \<open>A v1 line, as the protocol writes it: family, source, destination, both ports.\<close>

definition v1_line :: "string \<Rightarrow> bytes \<Rightarrow> bytes \<Rightarrow> nat \<Rightarrow> nat \<Rightarrow> bytes" where
  "v1_line family src dst sport dport =
     ''PROXY '' @ family @ '' '' @ ip_string src @ '' '' @ ip_string dst @ '' '' @ dec sport @ '' '' @
     dec dport @ [CHR 0x0D, CHR 0x0A]"

lemma address_graphic: "is_addr ip \<Longrightarrow> c \<in> set (ip_string ip) \<Longrightarrow> graphic c"
  by (drule (1) ip_string_chars) (auto simp: graphic_def dest: digit_value_graphic)

lemma dec_graphic: "c \<in> set (dec n) \<Longrightarrow> graphic c"
  by (rule num_text_graphic) auto

lemma trim_line_end:
  assumes "w \<noteq> []" and "graphic (last w)"
  shows "trim_right (s @ w @ [CHR 0x0D, CHR 0x0A]) [CHR 0x0D, CHR 0x0A] = s @ w"
proof -
  obtain v c where w: "w = v @ [c]" using assms(1) by (cases w rule: rev_cases) auto
  have "c \<notin> set [CHR 0x0D, CHR 0x0A]" using assms(2) w by (auto simp: graphic_def)
  then show ?thesis using trim_right_stop [of "[CHR 0x0D, CHR 0x0A]" "[CHR 0x0D, CHR 0x0A]" c "s @ v"] by (simp add: w)
qed

lemma v1_line_fields:
  assumes fam: "family \<noteq> []" "\<forall>c \<in> set family. graphic c" and addr: "is_addr src" "is_addr dst"
  shows "strings_fields (trim_right (v1_line family src dst sport dport) [CHR 0x0D, CHR 0x0A]) =
    [''PROXY'', family, ip_string src, ip_string dst, dec sport, dec dport]"
proof -
  have t: "trim_right (v1_line family src dst sport dport) [CHR 0x0D, CHR 0x0A] =
    ''PROXY'' @ CHR '' '' # family @ CHR '' '' # ip_string src @ CHR '' '' # ip_string dst @ CHR '' '' #
      dec sport @ CHR '' '' # dec dport"
    using trim_line_end [of "dec dport" "''PROXY '' @ family @ '' '' @ ip_string src @ '' '' @ ip_string dst @
      '' '' @ dec sport @ '' ''"] dec_graphic [of "last (dec dport)" dport]
    by (simp add: v1_line_def)
  have "\<forall>c \<in> set ''PROXY''. graphic c" by (simp add: graphic_def)
  moreover have "\<forall>c \<in> set (ip_string src). graphic c" "\<forall>c \<in> set (ip_string dst). graphic c"
    "\<forall>c \<in> set (dec sport). graphic c" "\<forall>c \<in> set (dec dport). graphic c"
    using addr address_graphic dec_graphic by blast+
  ultimately show ?thesis
    unfolding t using fam ip_string_not_Nil [OF addr(1)] ip_string_not_Nil [OF addr(2)]
    by (simp add: strings_fields_step strings_fields_last del: append_Cons append_Nil)
qed

lemma v1_line_address:
  assumes "family \<noteq> []" "\<forall>c \<in> set family. graphic c" and "is_addr src" "is_addr dst" and "sport < 65536"
  shows "v1_address (v1_line family src dst sport dport) =
    Some \<lparr>sa_ip = to16 src, sa_port = int sport, sa_zone = ''''\<rparr>"
  unfolding v1_address_def v1_line_fields [OF assms(1-4)]
  using assms(3,5) by (simp add: parse_ip_string atoi_dec)

lemma v1_line_end:
  assumes "\<forall>c \<in> set family. graphic c" and "is_addr src" "is_addr dst"
  shows "index_byte (CHR 0x0A) (v1_line family src dst sport dport @ rest) =
    Some (length (v1_line family src dst sport dport) - 1)"
proof -
  let ?w = "''PROXY '' @ family @ '' '' @ ip_string src @ '' '' @ ip_string dst @ '' '' @ dec sport @ '' '' @
     dec dport @ [CHR 0x0D]"
  have "CHR 0x0A \<notin> set ?w"
    using assms address_graphic dec_graphic by (force simp: graphic_def)
  from index_byte_first [OF this, of rest] show ?thesis by (simp add: v1_line_def)
qed

lemma v1_header_spec:
  assumes "family \<noteq> []" "\<forall>x \<in> set family. graphic x" and "is_addr src" "is_addr dst" and "sport < 65536"
  shows "header_spec (v1_line family src dst sport dport @ payload) =
    (Some \<lparr>sa_ip = to16 src, sa_port = int sport, sa_zone = ''''\<rparr>, payload)"
proof -
  let ?l = "v1_line family src dst sport dport"
  have len: "1 \<le> length (ip_string src)" "1 \<le> length (ip_string dst)" "1 \<le> length family"
      "1 \<le> length (dec sport)" "1 \<le> length (dec dport)"
    using assms(1) ip_string_not_Nil [OF assms(3)] ip_string_not_Nil [OF assms(4)] by (simp_all add: Suc_le_eq)
  have "length ?l = 12 + length family + length (ip_string src) + length (ip_string dst) +
      length (dec sport) + length (dec dport)"
    by (simp add: v1_line_def)
  with len have long: "16 \<le> length ?l" by linarith
  have six: "take 6 (?l @ payload) = proxyV1Prefix" "hd ?l = CHR ''P''"
    by (simp_all add: v1_line_def proxyV1Prefix_def)
  have "hd (take 12 (?l @ payload)) = CHR ''P''" using six(2) long by (cases ?l) auto
  then have "take 12 (?l @ payload) \<noteq> proxyV2Signature" by (auto simp: proxyV2Signature_def)
  then have "header_spec (?l @ payload) = v1_spec (?l @ payload)"
    using six long by (simp add: header_spec_def)
  also have "\<dots> = (Some \<lparr>sa_ip = to16 src, sa_port = int sport, sa_zone = ''''\<rparr>, payload)"
    using v1_line_end [OF assms(2-4), of sport dport payload] v1_line_address [OF assms, of dport] long
    by (simp add: v1_spec_def)
  finally show ?thesis .
qed

text \<open>A v2 header: command byte, family byte, then the length and the address block.\<close>

definition v2_header :: "char \<Rightarrow> char \<Rightarrow> bytes \<Rightarrow> bytes" where
  "v2_header cmd family body =
     proxyV2Signature @ [cmd, family, byte (length body div 256), byte (length body mod 256)] @ body"

lemma v2_header_spec:
  assumes "length body < 65536"
  shows "header_spec (v2_header cmd family body @ rest) =
    (v2_address (take 16 (v2_header cmd family body)) body, rest)"
proof -
  let ?h = "take 16 (v2_header cmd family body)"
  have h: "take 16 (v2_header cmd family body @ rest) = ?h"
      "?h = proxyV2Signature @ [cmd, family, byte (length body div 256), byte (length body mod 256)]"
      "drop 16 (v2_header cmd family body @ rest) = body @ rest"
    by (simp_all add: v2_header_def)
  have "length body div 256 < 256" using assms by (simp add: less_mult_imp_div_less)
  then have "uint16_be (take 2 (drop 14 ?h)) = length body"
    by (simp add: h(2) uint16_be_def)
  moreover have "take 12 (v2_header cmd family body @ rest) = proxyV2Signature"
    and "\<not> length (v2_header cmd family body @ rest) < 16"
    by (simp_all add: v2_header_def)
  ultimately show ?thesis
    unfolding header_spec_def v2_spec_def Let_def h(1,3) by simp
qed

lemma v2_command:
  "take 16 (v2_header cmd family body) ! 12 = cmd" "take 16 (v2_header cmd family body) ! 13 = family"
  by (simp_all add: v2_header_def nth_append proxyV2Signature_def)

section \<open>Properties\<close>

text \<open>A proxy's own address, for the examples.\<close>

definition local_peer :: sock_addr where
  "local_peer = \<lparr>sa_ip = loopback_v4, sa_port = 40000, sa_zone = ''''\<rparr>"

text \<open>
  How many of the bytes that arrive in time a header takes: none without a header; the line with
  its line feed in version 1; in version 2 the sixteen bytes and as many as they declare. A
  header that breaks off takes what there is of it.
\<close>

definition header_length :: "bytes \<Rightarrow> nat" where
  "header_length bs =
     (if length bs < 12 then 0
      else if take 12 bs = proxyV2Signature then
        min (length bs) (if length bs < 16 then 16 else 16 + (ord (bs ! 14) * 256 + ord (bs ! 15)))
      else if take 6 bs = proxyV1Prefix then
        (case index_byte (CHR 0x0A) bs of None \<Rightarrow> length bs | Some i \<Rightarrow> i + 1)
      else 0)"

lemma index_byte_bound: "index_byte c s = Some i \<Longrightarrow> i < length s"
  by (induction s arbitrary: i) (auto split: if_splits)

lemma header_length_bound: "header_length bs \<le> length bs"
  using index_byte_bound [of "CHR 0x0A" bs] by (auto simp: header_length_def Suc_le_eq split: option.split)

lemma header_spec_rest: "snd (header_spec bs) = drop (header_length bs) bs"
proof -
  have "snd (v2_spec bs) = drop (min (length bs) (16 + (ord (bs ! 14) * 256 + ord (bs ! 15)))) bs" if "\<not> length bs < 16"
  proof -
    have "uint16_be (take 2 (drop 14 (take 16 bs))) = ord (bs ! 14) * 256 + ord (bs ! 15)"
      using that by (simp add: uint16_be_def)
    then show ?thesis using that by (auto simp: v2_spec_def Let_def min_def add.commute)
  qed
  then show ?thesis
    by (auto simp: header_spec_def header_length_def v1_spec_def v2_spec_def split: option.split)
qed

lemma all_bytes: "concat (map snd as) = in_time d as @ too_late d as"
  unfolding in_time_def too_late_def by (metis concat_append map_append takeWhile_dropWhile_id)

text \<open>
  C22: Accepting a connection always returns, within ten seconds of the inner accept, and hands
  over the connection with its read deadline cleared. Of the bytes of the connection it takes
  exactly those of a header at their start that arrived in time, nothing when there is none, and
  every other byte is left to read, none lost, repeated or reordered.
\<close>

theorem accept_returns:
  "\<exists>w. proxy_accept now (Inr c) = Some (Inr w) \<and> clk (rd w) \<le> now + 10 * second \<and>
    deadline (conn (rd w)) = None \<and>
    pending (rd w) = drop (header_length (in_time (now + 10 * second) (arrivals c))) (concat (map snd (arrivals c)))"
proof -
  let ?d = "now + 10 * second" and ?A = "in_time (now + 10 * second) (arrivals c)"
  obtain w where w: "newProxyConn now c = Some w" "pending (rd w) = snd (header_spec ?A) @ too_late ?d (arrivals c)"
      "deadline (conn (rd w)) = None" "clk (rd w) \<le> ?d"
    using newProxyConn_spec [of now c] by blast
  have "pending (rd w) = drop (header_length ?A) (concat (map snd (arrivals c)))"
    unfolding w(2) all_bytes [of _ ?d] header_spec_rest using header_length_bound [of ?A] by simp
  with w show ?thesis by (intro exI [of _ w]) (simp add: proxy_accept_def)
qed

text \<open>
  C23: How the bytes are cut into segments does not matter: two connections that deliver the
  same bytes before the deadline, and the same after it, get the same header address and leave
  the same bytes to read.
\<close>

theorem accept_ignores_segments:
  assumes "in_time (now + 10 * second) (arrivals c) = in_time (now + 10 * second) (arrivals c')"
    and "too_late (now + 10 * second) (arrivals c) = too_late (now + 10 * second) (arrivals c')"
  shows "map_option (\<lambda>w. (remote w, pending (rd w))) (newProxyConn now c) =
    map_option (\<lambda>w. (remote w, pending (rd w))) (newProxyConn now c')"
  using newProxyConn_spec [of now c] newProxyConn_spec [of now c'] assms by auto

theorem accept_ignores_segments_witness:
  "map_option (\<lambda>w. (remote w, pending (rd w)))
      (newProxyConn 0 \<lparr>peer = local_peer, arrivals = [(1, ''PROX''), (2, ''Y TCP'')], closes = None, deadline = None\<rparr>) =
    map_option (\<lambda>w. (remote w, pending (rd w)))
      (newProxyConn 0 \<lparr>peer = local_peer, arrivals = [(7, ''PROXY TCP'')], closes = Some 9, deadline = None\<rparr>)"
  by (rule accept_ignores_segments) (simp_all add: in_time_def too_late_def)

text \<open>
  C24: A connection whose bytes in time start with neither a v2 signature nor a v1 prefix is
  passed through untouched: its address is the peer's and every byte is still to be read.
\<close>

theorem passthrough:
  assumes "take 12 (in_time (now + 10 * second) (arrivals c)) \<noteq> proxyV2Signature"
    and "take 6 (in_time (now + 10 * second) (arrivals c)) \<noteq> proxyV1Prefix"
  shows "\<exists>w. newProxyConn now c = Some w \<and> proxy_remote_addr w = peer c \<and>
    pending (rd w) = concat (map snd (arrivals c))"
proof -
  have "header_spec (in_time (now + 10 * second) (arrivals c)) = (None, in_time (now + 10 * second) (arrivals c))"
    using assms by (simp add: header_spec_def)
  then show ?thesis
    using newProxyConn_spec [of now c] all_bytes [of "arrivals c" "now + 10 * second"]
    by (auto simp: proxy_remote_addr_def)
qed

theorem passthrough_witness:
  "\<exists>w. newProxyConn 0 \<lparr>peer = local_peer, arrivals = [(1, ''GET / HTTP/1.1'')], closes = None, deadline = None\<rparr> = Some w \<and>
    proxy_remote_addr w = local_peer \<and> pending (rd w) = ''GET / HTTP/1.1''"
  using passthrough [of 0 "\<lparr>peer = local_peer, arrivals = [(1, ''GET / HTTP/1.1'')], closes = None, deadline = None\<rparr>"]
  by (simp add: in_time_def proxyV2Signature_def proxyV1Prefix_def)

text \<open>
  C20: A v1 header, for any source and destination address, any ports and any family word,
  restores the source: the connection's remote address is the header's, and exactly the header
  line is consumed.
\<close>

theorem v1_header_restores:
  assumes "family \<noteq> []" "\<forall>x \<in> set family. graphic x" and "is_addr src" "is_addr dst" and "sport < 65536"
    and "in_time (now + 10 * second) (arrivals c) = v1_line family src dst sport dport @ payload"
  shows "\<exists>w. newProxyConn now c = Some w \<and>
    proxy_remote_addr w = \<lparr>sa_ip = to16 src, sa_port = int sport, sa_zone = ''''\<rparr> \<and>
    pending (rd w) = payload @ too_late (now + 10 * second) (arrivals c)"
  using newProxyConn_spec [of now c] v1_header_spec [OF assms(1-5), of dport payload]
  unfolding assms(6) by (auto simp: proxy_remote_addr_def)

theorem v1_header_restores_witness:
  "\<exists>w. newProxyConn 0 \<lparr>peer = local_peer,
        arrivals = [(1, v1_line ''TCP4'' loopback_v4 loopback_v4 51000 443), (20 * second, ''hi'')], closes = None, deadline = None\<rparr> = Some w \<and>
    sa_port (proxy_remote_addr w) = 51000 \<and> pending (rd w) = ''hi''"
proof -
  let ?c = "\<lparr>peer = local_peer, arrivals = [(1, v1_line ''TCP4'' loopback_v4 loopback_v4 51000 443), (20 * second, ''hi'')],
    closes = None, deadline = None\<rparr>"
  have "in_time (0 + 10 * second) (arrivals ?c) = v1_line ''TCP4'' loopback_v4 loopback_v4 51000 443 @ ''''"
    and "too_late (0 + 10 * second) (arrivals ?c) = ''hi''"
    by (simp_all add: in_time_def too_late_def)
  with v1_header_restores [OF _ _ is_addr_loopback is_addr_loopback _ this(1)]
  show ?thesis by (auto simp: graphic_def)
qed

text \<open>
  C21: A v2 header of command PROXY restores the source address and port of its address block,
  for TCP over IPv4 and over IPv6, with whatever follows the block inside the header; exactly
  the declared length is consumed.
\<close>

theorem v2_header_restores:
  assumes "is_addr src" "is_addr dst" "length dst = length src" and "sport < 65536" "dport < 65536"
    and "body = src @ dst @ [byte (sport div 256), byte (sport mod 256), byte (dport div 256), byte (dport mod 256)] @ tlvs"
    and "length body < 65536"
    and "in_time (now + 10 * second) (arrivals c) =
      v2_header (CHR 0x21) (if length src = 4 then CHR 0x11 else CHR 0x21) body @ payload"
  shows "\<exists>w. newProxyConn now c = Some w \<and>
    proxy_remote_addr w = \<lparr>sa_ip = src, sa_port = int sport, sa_zone = ''''\<rparr> \<and>
    pending (rd w) = payload @ too_late (now + 10 * second) (arrivals c)"
proof -
  have port: "ord (byte (sport div 256)) * 256 + ord (byte (sport mod 256)) = sport"
    using assms(4) by (simp add: less_mult_imp_div_less)
  have "v2_address (take 16 (v2_header (CHR 0x21) (if length src = 4 then CHR 0x11 else CHR 0x21) body)) body =
    Some \<lparr>sa_ip = src, sa_port = int sport, sa_zone = ''''\<rparr>"
    using assms(1,3) port unfolding assms(6) is_addr_def v2_address_def v2_command uint16_be_def
    by (elim disjE) (simp_all)
  then show ?thesis
    using newProxyConn_spec [of now c] v2_header_spec [OF assms(7)] unfolding assms(8)
    by (auto simp: proxy_remote_addr_def)
qed

theorem v2_header_restores_witness:
  "\<exists>w. newProxyConn 0 \<lparr>peer = local_peer,
        arrivals = [(3, v2_header (CHR 0x21) (CHR 0x11)
          (loopback_v4 @ loopback_v4 @ [byte 199, byte 56, byte 1, byte 187]) @ ''hello'')], closes = None, deadline = None\<rparr> = Some w \<and>
    proxy_remote_addr w = \<lparr>sa_ip = loopback_v4, sa_port = 51000, sa_zone = ''''\<rparr> \<and> pending (rd w) = ''hello''"
proof -
  let ?body = "loopback_v4 @ loopback_v4 @ [byte 199, byte 56, byte 1, byte 187]"
  let ?c = "\<lparr>peer = local_peer, arrivals = [(3, v2_header (CHR 0x21) (CHR 0x11) ?body @ ''hello'')],
    closes = None, deadline = None\<rparr>"
  have "?body = loopback_v4 @ loopback_v4 @ [byte (51000 div 256), byte (51000 mod 256), byte (443 div 256), byte (443 mod 256)] @ []"
    by simp
  moreover have "in_time (0 + 10 * second) (arrivals ?c) =
      v2_header (CHR 0x21) (if length loopback_v4 = 4 then CHR 0x11 else CHR 0x21) ?body @ ''hello''"
    by (simp add: in_time_def loopback_v4_def)
  ultimately show ?thesis
    using v2_header_restores [OF is_addr_loopback is_addr_loopback refl, of 51000 443 ?body "[]" 0 ?c "''hello''"]
    by (simp add: too_late_def loopback_v4_def)
qed

text \<open>
  A complete v2 header of any other command, as the LOCAL health check is, is consumed and
  gives no address: the connection keeps its own peer address and the bytes after the header.
\<close>

lemma v2_other_command:
  assumes "\<not> (drop_bit 4 (u8 cmd) = 2 \<and> u8 cmd AND 15 = 1)" and "length body < 65536"
    and "in_time (now + 10 * second) (arrivals c) = v2_header cmd family body @ payload"
  shows "\<exists>w. newProxyConn now c = Some w \<and> proxy_remote_addr w = peer c \<and>
    pending (rd w) = payload @ too_late (now + 10 * second) (arrivals c)"
proof -
  have "v2_address (take 16 (v2_header cmd family body)) body = None"
    using assms(1) by (auto simp: v2_address_def v2_command)
  then show ?thesis
    using newProxyConn_spec [of now c] v2_header_spec [OF assms(2)] unfolding assms(3)
    by (auto simp: proxy_remote_addr_def)
qed

text \<open>
  A client that connects and says nothing holds \<open>Accept\<close> for the whole ten seconds: the
  header is read inside \<open>Accept\<close>, so the deadline bounds the wait but the next connection is
  accepted only after it.
\<close>

lemma silent_client_delays:
  assumes "arrivals c = []" and "closes c = None"
  shows "\<exists>w. proxy_accept now (Inr c) = Some (Inr w) \<and> clk (rd w) = now + 10 * second"
  using assms
  by (simp add: proxy_accept_def newProxyConn_def set_read_deadline_def readProxyHeader_def
      peek.simps conn_read_def Let_def)

end
