(* ===== verification/Guard.thy ===== *)
theory Guard
  imports Prelude
begin

text \<open>
  The interface of the budget guard that both Go binaries implement and the echo sessions rely
  on: a ledger of session slots per address and a meter of echoed bytes per window, as locales,
  with the clients' lemmas proved once. \<open>Budgets\<close> interprets them on the budgets of
  \<open>main.go\<close> and \<open>Legacy_Budgets\<close> on those of \<open>legacy/main.go\<close>.
\<close>

section \<open>Runs of a ledger of slots\<close>

text \<open>
  A ledger state is used through three operations that the guard's mutex serialises: taking a
  slot for a kind of session and an address, giving one back, and any other locked operation.
  The second component is the multiset of slots taken and still outstanding, each with the kind
  it was asked for: clients give back only slots they hold, once each.
\<close>

type_synonym 'k ticket = "'k \<times> string"

inductive ledger_step ::
  "(clock \<Rightarrow> 'k \<Rightarrow> string \<Rightarrow> 'b \<Rightarrow> (bool \<times> string) \<times> 'b) \<Rightarrow> (string \<Rightarrow> 'b \<Rightarrow> 'b) \<Rightarrow> ('o \<Rightarrow> 'b \<Rightarrow> 'b) \<Rightarrow>
    'b \<times> 'k ticket multiset \<Rightarrow> 'b \<times> 'k ticket multiset \<Rightarrow> bool"
  for grab :: "clock \<Rightarrow> 'k \<Rightarrow> string \<Rightarrow> 'b \<Rightarrow> (bool \<times> string) \<times> 'b"
    and give :: "string \<Rightarrow> 'b \<Rightarrow> 'b"
    and other :: "'o \<Rightarrow> 'b \<Rightarrow> 'b"
where
  granted: "grab c k a b = ((True, w), b') \<Longrightarrow> ledger_step grab give other (b, M) (b', add_mset (k, a) M)"
| refused: "grab c k a b = ((False, w), b') \<Longrightarrow> ledger_step grab give other (b, M) (b', M)"
| returned: "(k, a) \<in># M \<Longrightarrow> ledger_step grab give other (b, M) (give a b, M - {#(k, a)#})"
| aside: "ledger_step grab give other (b, M) (other x b, M)"

definition ledger_run ::
  "(clock \<Rightarrow> 'k \<Rightarrow> string \<Rightarrow> 'b \<Rightarrow> (bool \<times> string) \<times> 'b) \<Rightarrow> (string \<Rightarrow> 'b \<Rightarrow> 'b) \<Rightarrow> ('o \<Rightarrow> 'b \<Rightarrow> 'b) \<Rightarrow>
    'b \<times> 'k ticket multiset \<Rightarrow> 'b \<times> 'k ticket multiset \<Rightarrow> bool" where
  "ledger_run grab give other = (ledger_step grab give other)\<^sup>*\<^sup>*"

text \<open>The outstanding slots of one address, whatever their kind.\<close>

definition slots_of :: "'k ticket multiset \<Rightarrow> string \<Rightarrow> int" where
  "slots_of M a = int (size {#x \<in># M. snd x = a#})"

lemma slots_of_empty [simp]: "slots_of {#} a = 0"
  by (simp add: slots_of_def)

lemma slots_of_add [simp]: "slots_of (add_mset (k, a') M) a = (if a' = a then 1 else 0) + slots_of M a"
  by (simp add: slots_of_def)

lemma slots_of_remove:
  assumes "(k, a') \<in># M"
  shows "slots_of (M - {#(k, a')#}) a = slots_of M a - (if a' = a then 1 else 0)"
  using slots_of_add [of k a' "M - {#(k, a')#}" a] assms by simp

lemma count_le_slots: "int (count M (k, a)) \<le> slots_of M a"
proof -
  have "{#x \<in># M. x = (k, a)#} \<subseteq># {#x \<in># M. snd x = a#}"
    by (rule filter_mset_mono_strong) auto
  then have "size {#x \<in># M. x = (k, a)#} \<le> size {#x \<in># M. snd x = a#}"
    by (rule size_mset_mono)
  then show ?thesis by (simp add: slots_of_def filter_eq_replicate_mset)
qed

lemma slots_of_pos: "0 < slots_of M a \<longleftrightarrow> a \<in> snd ` set_mset M"
  by (force simp: slots_of_def nonempty_has_size [symmetric])

section \<open>The slot ledger\<close>

locale slot_ledger =
  fixes held :: "'b \<Rightarrow> string \<Rightarrow> int"
    and keys :: "'b \<Rightarrow> string set"
    and tidy :: "'b \<Rightarrow> bool"
    and grab :: "clock \<Rightarrow> 'k \<Rightarrow> string \<Rightarrow> 'b \<Rightarrow> (bool \<times> string) \<times> 'b"
    and give :: "string \<Rightarrow> 'b \<Rightarrow> 'b"
    and other :: "'o \<Rightarrow> 'b \<Rightarrow> 'b"
    and cap :: "'k \<Rightarrow> int"
    and top :: int
  assumes cap_top: "0 \<le> cap k \<and> cap k \<le> top"
    and keys_held: "tidy b \<Longrightarrow> keys b = {a. 0 < held b a}"
    and grab_yes: "tidy b \<Longrightarrow> grab c k a b = ((True, w), b') \<Longrightarrow>
      tidy b' \<and> held b a < cap k \<and> held b' = (held b)(a := held b a + 1)"
    and grab_no: "tidy b \<Longrightarrow> grab c k a b = ((False, w), b') \<Longrightarrow> tidy b' \<and> held b' = held b"
    and give_held: "tidy b \<Longrightarrow> tidy (give a b) \<and> held (give a b) = (held b)(a := max 0 (held b a - 1))"
    and other_held: "tidy b \<Longrightarrow> tidy (other x b) \<and> held (other x b) = held b"
begin

text \<open>
  The ledger's counts are the outstanding slots; no address holds more than \<open>top\<close> slots, and
  no more slots of a kind than the kind's own cap.
\<close>

definition balanced :: "'b \<times> 'k ticket multiset \<Rightarrow> bool" where
  "balanced s \<longleftrightarrow> tidy (fst s) \<and> held (fst s) = slots_of (snd s) \<and> (\<forall>a. slots_of (snd s) a \<le> top) \<and>
     (\<forall>k a. int (count (snd s) (k, a)) \<le> cap k)"

lemma balanced_granted:
  assumes "balanced (b, M)" and g: "grab c k a b = ((True, w), b')"
  shows "balanced (b', add_mset (k, a) M)"
proof -
  have M: "tidy b" "held b = slots_of M" "\<And>a. slots_of M a \<le> top" "\<And>k a. int (count M (k, a)) \<le> cap k"
    using assms(1) by (auto simp: balanced_def)
  have y: "tidy b'" "slots_of M a < cap k" "held b' = (slots_of M)(a := slots_of M a + 1)"
    using grab_yes [OF M(1) g] M(2) by auto
  have "int (count (add_mset (k, a) M) (k', a')) \<le> cap k'" for k' a'
    using M(4) [of k' a'] y(2) count_le_slots [of M k a] by auto
  moreover have "slots_of (add_mset (k, a) M) a' \<le> top" for a'
    using M(3) [of a'] y(2) cap_top [of k] by auto
  ultimately show ?thesis using y by (auto simp: balanced_def fun_eq_iff)
qed

lemma balanced_returned:
  assumes "balanced (b, M)" and m: "(k, a) \<in># M"
  shows "balanced (give a b, M - {#(k, a)#})"
proof -
  have M: "tidy b" "held b = slots_of M" "\<And>a. slots_of M a \<le> top" "\<And>k a. int (count M (k, a)) \<le> cap k"
    using assms(1) by (auto simp: balanced_def)
  have "0 < slots_of M a" using m by (force simp: slots_of_pos)
  then have "held (give a b) = slots_of (M - {#(k, a)#})"
    using give_held [OF M(1), of a] M(2) by (auto simp: fun_eq_iff slots_of_remove [OF m])
  moreover have "slots_of (M - {#(k, a)#}) a' \<le> top" for a'
    using M(3) [of a'] by (simp add: slots_of_remove [OF m])
  moreover have "int (count (M - {#(k, a)#}) x) \<le> cap (fst x)" for x
    using M(4) [of "fst x" "snd x"] by (simp add: le_diff_conv)
  ultimately show ?thesis using give_held [OF M(1), of a] by (force simp: balanced_def)
qed

lemma balanced_step:
  assumes "ledger_step grab give other s s'" and "balanced s"
  shows "balanced s'"
  using assms
proof (cases rule: ledger_step.cases)
  case (refused c k a b w b' M)
  with assms(2) show ?thesis using grab_no [of b c k a w b'] by (simp add: balanced_def)
next
  case (aside b M x)
  with assms(2) show ?thesis using other_held [of b x] by (simp add: balanced_def)
qed (use assms(2) balanced_granted balanced_returned in blast)+

lemma balanced_run:
  assumes "ledger_run grab give other s s'" and "balanced s"
  shows "balanced s'"
  using assms(1) unfolding ledger_run_def
  by (induction rule: rtranclp_induct) (auto intro: balanced_step assms(2))

lemma run_from_idle:
  assumes run: "ledger_run grab give other (b\<^sub>0, {#}) (b, M)"
    and idle: "tidy b\<^sub>0" "\<And>a. held b\<^sub>0 a = 0"
  shows "held b a = slots_of M a \<and> slots_of M a \<le> top \<and> int (count M (k, a)) \<le> cap k \<and>
    keys b = snd ` set_mset M"
proof -
  have "0 \<le> top" using cap_top [of k] by linarith
  with idle cap_top have "balanced (b\<^sub>0, {#})" by (auto simp: balanced_def fun_eq_iff)
  with run have "balanced (b, M)" by (rule balanced_run)
  then show ?thesis by (auto simp: balanced_def keys_held slots_of_pos)
qed

end

section \<open>The egress meter\<close>

text \<open>
  A sequence of charges against the meter, each with its clock readings and its byte count.
  The result lists the charges the meter granted, with the window each fell in.
\<close>

fun meter_run ::
  "(clock \<Rightarrow> int \<Rightarrow> 'b \<Rightarrow> (bool \<times> 'l) \<times> 'b) \<Rightarrow> ('b \<Rightarrow> instant) \<Rightarrow> (clock \<times> int) list \<Rightarrow> 'b \<Rightarrow>
    (instant \<times> int) list \<times> 'b" where
  "meter_run charge opened [] b = ([], b)"
| "meter_run charge opened ((c, n) # cs) b =
     (let ((ok, _), b') = charge c n b; (gs, b'') = meter_run charge opened cs b'
      in ((if ok then [(opened b', n)] else []) @ gs, b''))"

text \<open>What the same sequence of charges logs.\<close>

fun meter_log :: "(clock \<Rightarrow> int \<Rightarrow> 'b \<Rightarrow> (bool \<times> 'l list) \<times> 'b) \<Rightarrow> (clock \<times> int) list \<Rightarrow> 'b \<Rightarrow> 'l list" where
  "meter_log charge [] b = []"
| "meter_log charge ((c, n) # cs) b =
     (let ((ok, l), b') = charge c n b in l @ meter_log charge cs b')"

definition granted_in :: "instant \<Rightarrow> (instant \<times> int) list \<Rightarrow> int" where
  "granted_in w gs = sum_list (map snd (filter (\<lambda>(w', n). w' = w) gs))"

lemma granted_in_Nil [simp]: "granted_in w [] = 0"
  by (simp add: granted_in_def)

lemma granted_in_Cons [simp]:
  "granted_in w ((w', n) # gs) = (if w' = w then n else 0) + granted_in w gs"
  by (simp add: granted_in_def)

text \<open>Both clock readings of a call, in order, and none before an earlier call's.\<close>

fun clocks_ordered :: "instant \<Rightarrow> (clock \<times> 'n) list \<Rightarrow> bool" where
  "clocks_ordered t [] = True"
| "clocks_ordered t (((t\<^sub>1, t\<^sub>2), n) # cs) = (t \<le> t\<^sub>1 \<and> t\<^sub>1 \<le> t\<^sub>2 \<and> clocks_ordered t\<^sub>2 cs)"

locale egress_meter =
  fixes used :: "'b \<Rightarrow> int"
    and opened :: "'b \<Rightarrow> instant"
    and charge :: "clock \<Rightarrow> int \<Rightarrow> 'b \<Rightarrow> (bool \<times> 'l) \<times> 'b"
    and ceiling :: int
  assumes ceiling_pos: "0 < ceiling"
    and charge_same: "charge (t\<^sub>1, t\<^sub>2) n b = ((ok, l), b') \<Longrightarrow> t\<^sub>1 - opened b < day \<Longrightarrow>
      opened b' = opened b \<and> used b' = wrap64 (used b + n) \<and> (ok \<longleftrightarrow> used b' < ceiling)"
    and charge_fresh: "charge (t\<^sub>1, t\<^sub>2) n b = ((ok, l), b') \<Longrightarrow> day \<le> t\<^sub>1 - opened b \<Longrightarrow>
      opened b' = t\<^sub>2 \<and> used b' = wrap64 n \<and> (ok \<longleftrightarrow> used b' < ceiling)"
begin

text \<open>
  Within the current window the counter never falls behind what was granted; windows opened
  later start afresh. The byte counts of the run are assumed to stay within \<open>int64\<close>.
\<close>

lemma granted_bounded:
  assumes "meter_run charge opened cs b = (gs, b')"
    and "\<forall>x \<in> set cs. 0 \<le> snd x" and "0 \<le> used b" and "used b + sum_list (map snd cs) < 2 ^ 63"
    and "clocks_ordered t cs" and "opened b \<le> t"
  shows "0 \<le> granted_in w gs \<and> granted_in w gs < ceiling \<and>
    (w < opened b \<longrightarrow> granted_in w gs = 0) \<and>
    (w = opened b \<longrightarrow> granted_in w gs = 0 \<or> used b + granted_in w gs < ceiling)"
  using assms
proof (induction cs arbitrary: b gs t)
  case Nil
  then show ?case using ceiling_pos by auto
next
  case (Cons x cs)
  obtain t\<^sub>1 t\<^sub>2 n where x: "x = ((t\<^sub>1, t\<^sub>2), n)" by (metis prod.collapse)
  obtain ok l b\<^sub>1 where c: "charge (t\<^sub>1, t\<^sub>2) n b = ((ok, l), b\<^sub>1)" by (metis prod.collapse)
  obtain gs' where r: "meter_run charge opened cs b\<^sub>1 = (gs', b')"
    and gs: "gs = (if ok then [(opened b\<^sub>1, n)] else []) @ gs'"
    using Cons.prems(1) x c by (auto split: prod.splits)
  have n: "0 \<le> n" "0 \<le> sum_list (map snd cs)" "n + used b + sum_list (map snd cs) < 2 ^ 63"
    and nonneg: "\<forall>x \<in> set cs. 0 \<le> snd x"
    using Cons.prems(2,4) x sum_list_nonneg_int [of "map snd cs"] by auto
  have ord: "opened b \<le> t\<^sub>1" "t\<^sub>1 \<le> t\<^sub>2" "clocks_ordered t\<^sub>2 cs"
    using Cons.prems(5,6) x by auto
  show ?case
  proof (cases "t\<^sub>1 - opened b < day")
    case True
    have s: "opened b\<^sub>1 = opened b" "used b\<^sub>1 = used b + n" "ok \<longleftrightarrow> used b\<^sub>1 < ceiling"
      using charge_same [OF c True] n Cons.prems(3) by (auto simp: wrap64_id)
    have "0 \<le> granted_in w gs' \<and> granted_in w gs' < ceiling \<and>
      (w < opened b\<^sub>1 \<longrightarrow> granted_in w gs' = 0) \<and>
      (w = opened b\<^sub>1 \<longrightarrow> granted_in w gs' = 0 \<or> used b\<^sub>1 + granted_in w gs' < ceiling)"
      using s n Cons.prems(3) ord by (intro Cons.IH [where t = t\<^sub>2, OF r nonneg]) auto
    then show ?thesis using s n gs Cons.prems(3) by auto
  next
    case False
    have s: "opened b\<^sub>1 = t\<^sub>2" "used b\<^sub>1 = n" "ok \<longleftrightarrow> used b\<^sub>1 < ceiling"
      using charge_fresh [OF c] False n Cons.prems(3) by (auto simp: wrap64_id)
    have later: "opened b < t\<^sub>2" using False ord by linarith
    have "0 \<le> granted_in w gs' \<and> granted_in w gs' < ceiling \<and>
      (w < opened b\<^sub>1 \<longrightarrow> granted_in w gs' = 0) \<and>
      (w = opened b\<^sub>1 \<longrightarrow> granted_in w gs' = 0 \<or> used b\<^sub>1 + granted_in w gs' < ceiling)"
      using s n Cons.prems(3) ord by (intro Cons.IH [where t = t\<^sub>2, OF r nonneg]) auto
    then show ?thesis using s n gs later by auto
  qed
qed

corollary window_bounded:
  assumes "meter_run charge opened cs b = (gs, b')"
    and "\<forall>x \<in> set cs. 0 \<le> snd x" and "0 \<le> used b" and "used b + sum_list (map snd cs) < 2 ^ 63"
    and "clocks_ordered (opened b) cs"
  shows "granted_in w gs < ceiling"
  using granted_bounded [OF assms order_refl] by blast

end

end
