(* ===== verification/Echo.thy ===== *)
theory Echo
  imports Guard "HOL-Library.Sublist"
begin

text \<open>
  The echo of one session: \<open>echoStream\<close> as a function of what the stream's reads and writes
  return, and \<open>serveEcho\<close> as a step relation over its goroutines, the supervisor, the
  datagram loop, the accept loop and one echo loop per stream. The budget guard is a parameter
  (\<open>charge\<close> for \<open>limits.spend\<close>, \<open>give\<close> for \<open>limits.release\<close>), so that both
  binaries instantiate the same relation.
\<close>

section \<open>One stream, run to completion\<close>

text \<open>
  An iteration of the loop: what \<open>stream.Read\<close> returns, the bytes and whether an error came
  with them, and what \<open>stream.Write\<close> would return, \<open>Some k\<close> being an error after \<open>k\<close> bytes.
\<close>

type_synonym iteration = "bytes \<times> bool \<times> nat option"

text \<open>
  The result: the bytes written, whether the loop returned, which is when the deferred
  \<open>stream.Close\<close> runs, and the state behind \<open>spend\<close>. A script that runs out leaves the loop
  waiting in \<open>Read\<close>.
\<close>

fun echoStream :: "(int \<Rightarrow> 'g \<Rightarrow> bool \<times> 'g) \<Rightarrow> iteration list \<Rightarrow> 'g \<Rightarrow> bytes \<times> bool \<times> 'g" where
  "echoStream spend [] g = ([], False, g)"
| "echoStream spend ((data, err, fault) # script) g =
     (if data \<noteq> [] then
        (let (ok, g) = spend (int (length data)) g in
         if \<not> ok then ([], True, g)
         else case fault of
           Some k \<Rightarrow> (take k data, True, g)
         | None \<Rightarrow>
             if err then (data, True, g)
             else (let (written, closed, g) = echoStream spend script g in (data @ written, closed, g)))
      else if err then ([], True, g)
      else echoStream spend script g)"

section \<open>The goroutines of a session\<close>

text \<open>
  Where a loop stands. The two operations of the \<open>spend\<close> closure are steps of their own, the
  atomic \<open>Add\<close> and the guard's \<open>spend\<close>, since other goroutines run between them; the flag
  is the error that came with a read.
\<close>

datatype stage =
    Reading
  | Counting bytes bool
  | Charging bytes bool
  | Stopping string
  | Sending bytes bool
  | Returned

datatype flow = DatagramFlow | StreamFlow

record worker =
  flow :: flow
  stage :: stage
  received :: "bytes list"
  echoes :: "bytes list"

text \<open>The supervisor: waiting in \<open>select\<close>, then closing, then its two deferred calls.\<close>

datatype phase = Selecting | Closing string | Cancelling | Releasing | Released

record session =
  peer_key :: string
  expires :: instant
  wall :: instant
  tally :: int
  stop_chan :: "string option"
  phase :: phase
  cancelled :: bool
  over :: bool
  close_reason :: "string option"
  accepting :: bool
  workers :: "worker list"

text \<open>
  \<open>serveEcho\<close>'s own statements: the deadline, the empty channel, the zero counter, and the
  three goroutines. Streams are added by the accept loop.
\<close>

definition fresh_worker :: "flow \<Rightarrow> worker" where
  "fresh_worker f = \<lparr>flow = f, stage = Reading, received = [], echoes = []\<rparr>"

definition open_session :: "duration \<Rightarrow> instant \<Rightarrow> string \<Rightarrow> session" where
  "open_session lifetime now a =
     \<lparr>peer_key = a, expires = now + lifetime, wall = now, tally = 0, stop_chan = None,
      phase = Selecting, cancelled = False, over = False, close_reason = None, accepting = True,
      workers = [fresh_worker DatagramFlow]\<rparr>"

text \<open>The \<open>stop\<close> closure: a non-blocking send on a channel of capacity one.\<close>

definition offer_stop :: "string \<Rightarrow> string option \<Rightarrow> string option" where
  "offer_stop why c = (case c of None \<Rightarrow> Some why | Some w \<Rightarrow> Some w)"

definition read_limit :: nat where
  "read_limit = 32 * 1024"

definition budget_reason :: string where
  "budget_reason = ''echo budget reached''"

definition ceiling_reason :: string where
  "ceiling_reason = ''daily egress ceiling reached''"

definition lifetime_reason :: string where
  "lifetime_reason = ''session lifetime reached''"

lemma reasons_distinct [simp]:
  "budget_reason \<noteq> ceiling_reason" "ceiling_reason \<noteq> budget_reason"
  "budget_reason \<noteq> lifetime_reason" "lifetime_reason \<noteq> budget_reason"
  "ceiling_reason \<noteq> lifetime_reason" "lifetime_reason \<noteq> ceiling_reason"
  by (simp_all add: budget_reason_def ceiling_reason_def lifetime_reason_def)

text \<open>
  One step of a loop, with the session's byte counter, its stop channel and the guard. The
  stream reads up to its buffer's length and skips \<open>spend\<close> when nothing was read; the
  datagram loop spends on every datagram and ignores what \<open>SendDatagram\<close> returns. The two
  clock readings of one \<open>spend\<close> are in order.
\<close>

inductive worker_step ::
  "int \<Rightarrow> (clock \<Rightarrow> int \<Rightarrow> 'g \<Rightarrow> (bool \<times> 'l) \<times> 'g) \<Rightarrow>
    'g \<times> int \<times> string option \<times> worker \<Rightarrow> 'g \<times> int \<times> string option \<times> worker \<Rightarrow> bool"
  for budget :: int and charge :: "clock \<Rightarrow> int \<Rightarrow> 'g \<Rightarrow> (bool \<times> 'l) \<times> 'g"
where
  stream_data: "stage w = Reading \<Longrightarrow> flow w = StreamFlow \<Longrightarrow> data \<noteq> [] \<Longrightarrow> length data \<le> read_limit \<Longrightarrow>
    worker_step budget charge (g, n, c, w)
      (g, n, c, w\<lparr>stage := Counting data err, received := received w @ [data]\<rparr>)"
| stream_empty: "stage w = Reading \<Longrightarrow> flow w = StreamFlow \<Longrightarrow>
    worker_step budget charge (g, n, c, w) (g, n, c, w\<lparr>stage := (if err then Returned else Reading)\<rparr>)"
| datagram: "stage w = Reading \<Longrightarrow> flow w = DatagramFlow \<Longrightarrow>
    worker_step budget charge (g, n, c, w)
      (g, n, c, w\<lparr>stage := Counting data False, received := received w @ [data]\<rparr>)"
| datagram_error: "stage w = Reading \<Longrightarrow> flow w = DatagramFlow \<Longrightarrow>
    worker_step budget charge (g, n, c, w) (g, n, c, w\<lparr>stage := Returned\<rparr>)"
| count: "stage w = Counting data err \<Longrightarrow> n' = wrap64 (n + int (length data)) \<Longrightarrow>
    worker_step budget charge (g, n, c, w)
      (g, n', c, w\<lparr>stage := (if n' > budget then Stopping budget_reason else Charging data err)\<rparr>)"
| charge: "stage w = Charging data err \<Longrightarrow> fst t \<le> snd t \<Longrightarrow>
    charge t (int (length data)) g = ((ok, l), g') \<Longrightarrow>
    worker_step budget charge (g, n, c, w)
      (g', n, c, w\<lparr>stage := (if \<not> ok then Stopping ceiling_reason else Sending data err)\<rparr>)"
| stop: "stage w = Stopping why \<Longrightarrow>
    worker_step budget charge (g, n, c, w) (g, n, offer_stop why c, w\<lparr>stage := Returned\<rparr>)"
| stream_write: "stage w = Sending data err \<Longrightarrow> flow w = StreamFlow \<Longrightarrow>
    worker_step budget charge (g, n, c, w)
      (g, n, c, w\<lparr>stage := (if err then Returned else Reading), echoes := echoes w @ [data]\<rparr>)"
| stream_fault: "stage w = Sending data err \<Longrightarrow> flow w = StreamFlow \<Longrightarrow>
    worker_step budget charge (g, n, c, w)
      (g, n, c, w\<lparr>stage := Returned, echoes := echoes w @ [take k data]\<rparr>)"
| datagram_send: "stage w = Sending data err \<Longrightarrow> flow w = DatagramFlow \<Longrightarrow>
    worker_step budget charge (g, n, c, w)
      (g, n, c, w\<lparr>stage := Reading, echoes := (if sent then echoes w @ [data] else echoes w)\<rparr>)"

text \<open>One step of the supervisor, \<open>give\<close> being the deferred \<open>limits.release\<close>.\<close>

inductive supervisor_step :: "(string \<Rightarrow> 'g \<Rightarrow> 'g) \<Rightarrow> 'g \<times> session \<Rightarrow> 'g \<times> session \<Rightarrow> bool"
  for give :: "string \<Rightarrow> 'g \<Rightarrow> 'g"
where
  select_stopped: "phase s = Selecting \<Longrightarrow> stop_chan s = Some why \<Longrightarrow>
    supervisor_step give (g, s) (g, s\<lparr>stop_chan := None, phase := Closing why\<rparr>)"
| select_deadline: "phase s = Selecting \<Longrightarrow> expires s \<le> wall s \<or> cancelled s \<Longrightarrow>
    supervisor_step give (g, s) (g, s\<lparr>phase := Closing lifetime_reason\<rparr>)"
| select_over: "phase s = Selecting \<Longrightarrow> over s \<Longrightarrow>
    supervisor_step give (g, s) (g, s\<lparr>phase := Cancelling\<rparr>)"
| close_session: "phase s = Closing why \<Longrightarrow>
    supervisor_step give (g, s)
      (g, s\<lparr>phase := Cancelling, over := True, close_reason := Some why\<rparr>)"
| cancel: "phase s = Cancelling \<Longrightarrow>
    supervisor_step give (g, s) (g, s\<lparr>phase := Releasing, cancelled := True\<rparr>)"
| release_slot: "phase s = Releasing \<Longrightarrow>
    supervisor_step give (g, s) (give (peer_key s) g, s\<lparr>phase := Released\<rparr>)"

text \<open>One step of a session: a loop, the accept loop, the supervisor, the clock or the peer.\<close>

inductive session_step ::
  "int \<Rightarrow> (clock \<Rightarrow> int \<Rightarrow> 'g \<Rightarrow> (bool \<times> 'l) \<times> 'g) \<Rightarrow> (string \<Rightarrow> 'g \<Rightarrow> 'g) \<Rightarrow>
    'g \<times> session \<Rightarrow> 'g \<times> session \<Rightarrow> bool"
  for budget :: int and charge :: "clock \<Rightarrow> int \<Rightarrow> 'g \<Rightarrow> (bool \<times> 'l) \<times> 'g" and give :: "string \<Rightarrow> 'g \<Rightarrow> 'g"
where
  work: "i < length (workers s) \<Longrightarrow>
    worker_step budget charge (g, tally s, stop_chan s, workers s ! i) (g', n, c, w) \<Longrightarrow>
    session_step budget charge give (g, s)
      (g', s\<lparr>tally := n, stop_chan := c, workers := (workers s)[i := w]\<rparr>)"
| accept: "accepting s \<Longrightarrow>
    session_step budget charge give (g, s) (g, s\<lparr>workers := workers s @ [fresh_worker StreamFlow]\<rparr>)"
| accept_error: "accepting s \<Longrightarrow>
    session_step budget charge give (g, s) (g, s\<lparr>accepting := False\<rparr>)"
| supervise: "supervisor_step give (g, s) (g', s') \<Longrightarrow> session_step budget charge give (g, s) (g', s')"
| tick: "wall s \<le> t \<Longrightarrow> session_step budget charge give (g, s) (g, s\<lparr>wall := t\<rparr>)"
| peer_leaves: "session_step budget charge give (g, s) (g, s\<lparr>over := True\<rparr>)"

inductive_cases worker_stepE [consumes 1, case_names
    stream_data stream_empty datagram datagram_error count charge stop stream_write stream_fault datagram_send]:
  "worker_step budget charge (g, n, c, w) (g', n', c', w')"
inductive_cases supervisor_stepE [consumes 1, case_names
    select_stopped select_deadline select_over close_session cancel release_slot]:
  "supervisor_step give (g, s) (g', s')"
inductive_cases session_stepE [consumes 1, case_names work accept accept_error supervise tick peer_leaves]:
  "session_step budget charge give (g, s) (g', s')"

inductive_simps supervisor_step_released:
  "supervisor_step give (g, s\<lparr>phase := Released\<rparr>) (g', s')"

end
