(* ===== verification/Echo_Facts.thy ===== *)
theory Echo_Facts
  imports Echo
begin

text \<open>
  What every step of a session keeps, whatever the guard does: the byte accounting against the
  session budget, the echo of each stream and datagram, the reasons a session is closed for,
  and the supervisor's progress to the release of its slot. None of the invariants mentions
  the guard, so other sessions may use it in between.
\<close>

section \<open>Sums over the loops\<close>

definition total :: "(worker \<Rightarrow> int) \<Rightarrow> session \<Rightarrow> int" where
  "total f s = sum_list (map f (workers s))"

lemma sum_list_update_int:
  "i < length xs \<Longrightarrow> sum_list (map f (xs[i := x])) = sum_list (map f xs) - f (xs ! i) + (f x :: int)"
  by (induction xs arbitrary: i) (auto split: nat.splits)

lemma sum_list_ge_member:
  "i < length xs \<Longrightarrow> \<forall>x \<in> set xs. 0 \<le> f x \<Longrightarrow> f (xs ! i) \<le> (sum_list (map f xs) :: int)"
proof (induction xs arbitrary: i)
  case (Cons a xs)
  have "0 \<le> sum_list (map f xs)" using Cons.prems by (intro sum_list_nonneg_int) auto
  with Cons show ?case by (cases i) fastforce+
qed simp

lemma all_set_update: "\<forall>x \<in> set xs. P x \<Longrightarrow> P y \<Longrightarrow> \<forall>x \<in> set (xs[i := y]). P x"
  using set_update_subset_insert by fastforce

section \<open>Byte accounting\<close>

definition bytes_in :: "bytes list \<Rightarrow> int" where
  "bytes_in xs = int (length (concat xs))"

definition offered :: "worker \<Rightarrow> int" where
  "offered w = bytes_in (received w)"

definition uncounted :: "worker \<Rightarrow> int" where
  "uncounted w = (case stage w of Counting d _ \<Rightarrow> int (length d) | _ \<Rightarrow> 0)"

definition sent :: "worker \<Rightarrow> int" where
  "sent w = bytes_in (echoes w)"

text \<open>The bytes of a loop that the session budget has admitted and that are not lost yet.\<close>

definition claimed :: "worker \<Rightarrow> int" where
  "claimed w = sent w +
     (case stage w of Charging d _ \<Rightarrow> int (length d) | Sending d _ \<Rightarrow> int (length d) | _ \<Rightarrow> 0)"

lemma bytes_in_simps [simp]: "bytes_in [] = 0" "bytes_in (xs @ [x]) = bytes_in xs + int (length x)"
  by (simp_all add: bytes_in_def)

lemma accounts_nonneg [simp]: "0 \<le> uncounted w" "0 \<le> offered w" "0 \<le> sent w" "sent w \<le> claimed w"
  by (simp_all add: uncounted_def offered_def sent_def claimed_def bytes_in_def split: stage.splits)

lemma fresh_worker_accounts [simp]:
  "uncounted (fresh_worker f) = 0" "offered (fresh_worker f) = 0" "claimed (fresh_worker f) = 0"
  "sent (fresh_worker f) = 0"
  by (simp_all add: uncounted_def offered_def claimed_def sent_def fresh_worker_def)

lemmas account_defs = offered_def uncounted_def claimed_def sent_def

lemma worker_step_accounts:
  assumes "worker_step budget charge (g, n, c, w) (g', n', c', w')"
    and "0 \<le> n" and "n + uncounted w < 2 ^ 63"
  shows "offered w \<le> offered w' \<and> n \<le> n' \<and>
    n' + uncounted w' - offered w' = n + uncounted w - offered w \<and>
    (claimed w' \<le> claimed w \<or> (claimed w' - claimed w \<le> n' - n \<and> n' \<le> budget))"
  using assms by (cases rule: worker_stepE) (auto simp: account_defs wrap64_id)

lemma worker_step_offered:
  "worker_step budget charge (g, n, c, w) (g', n', c', w') \<Longrightarrow> offered w \<le> offered w'"
  by (erule worker_stepE) (auto simp: account_defs)

definition accounted :: "int \<Rightarrow> session \<Rightarrow> bool" where
  "accounted budget s \<longleftrightarrow> 0 \<le> tally s \<and> tally s + total uncounted s = total offered s \<and>
     total claimed s \<le> tally s \<and> total claimed s \<le> budget"

lemma total_work:
  "i < length (workers s) \<Longrightarrow>
    total f (s\<lparr>tally := n, stop_chan := c, workers := (workers s)[i := w]\<rparr>) =
      total f s - f (workers s ! i) + f w"
  by (simp add: total_def sum_list_update_int)

lemma total_uncounted_ge:
  "i < length (workers s) \<Longrightarrow> uncounted (workers s ! i) \<le> total uncounted s"
  unfolding total_def by (rule sum_list_ge_member) simp_all

lemma supervisor_step_frame:
  "supervisor_step give (g, s) (g', s') \<Longrightarrow>
    workers s' = workers s \<and> tally s' = tally s \<and> peer_key s' = peer_key s \<and>
    expires s' = expires s \<and> wall s' = wall s \<and> accepting s' = accepting s"
  by (erule supervisor_stepE) auto

lemma session_step_key:
  "session_step budget charge give (g, s) (g', s') \<Longrightarrow> peer_key s' = peer_key s \<and> expires s' = expires s"
  by (erule session_stepE) (auto dest: supervisor_step_frame)

lemma session_step_offered:
  assumes "session_step budget charge give (g, s) (g', s')"
  shows "total offered s \<le> total offered s'"
  using assms
proof (cases rule: session_stepE)
  case (work i n c w)
  with worker_step_offered [OF work(3)] show ?thesis by (simp add: total_work)
qed (auto simp: total_def dest: supervisor_step_frame)

lemma accounted_step:
  assumes "session_step budget charge give (g, s) (g', s')" and "accounted budget s"
    and "total offered s' < 2 ^ 63"
  shows "accounted budget s'"
proof -
  have bound: "total offered s < 2 ^ 63"
    using session_step_offered [OF assms(1)] assms(3) by linarith
  from assms(1) show ?thesis
  proof (cases rule: session_stepE)
    case (work i n c w)
    have "tally s + uncounted (workers s ! i) < 2 ^ 63"
      using bound total_uncounted_ge [OF work(2)] assms(2) by (simp add: accounted_def)
    then show ?thesis
      using worker_step_accounts [OF work(3)] assms(2) unfolding work(1) accounted_def total_work [OF work(2)]
      by auto
  qed (use assms(2) in \<open>auto simp: accounted_def total_def dest: supervisor_step_frame\<close>)
qed

lemma accounted_open: "0 \<le> budget \<Longrightarrow> accounted budget (open_session lifetime t a)"
  by (simp add: accounted_def open_session_def total_def)

lemma accounted_sent:
  assumes "accounted budget s"
  shows "total sent s \<le> budget"
proof -
  have "sum_list (map sent (workers s)) \<le> sum_list (map claimed (workers s))"
    by (rule sum_list_mono) simp
  with assms show ?thesis by (simp add: accounted_def total_def)
qed

section \<open>The echo\<close>

text \<open>
  A stream returns what it read, in order; a chunk it has read but not written is at hand
  until the loop stops. A datagram is returned whole or not at all, in order.
\<close>

definition echo_inv :: "worker \<Rightarrow> bool" where
  "echo_inv w \<longleftrightarrow>
     (case stage w of
        Reading \<Rightarrow> (if flow w = StreamFlow then echoes w = received w else subseq (echoes w) (received w))
      | Counting d _ \<Rightarrow> (\<exists>r. received w = r @ [d] \<and> (if flow w = StreamFlow then echoes w = r else subseq (echoes w) r))
      | Charging d _ \<Rightarrow> (\<exists>r. received w = r @ [d] \<and> (if flow w = StreamFlow then echoes w = r else subseq (echoes w) r))
      | Sending d _ \<Rightarrow> (\<exists>r. received w = r @ [d] \<and> (if flow w = StreamFlow then echoes w = r else subseq (echoes w) r))
      | _ \<Rightarrow> (if flow w = StreamFlow then prefix (concat (echoes w)) (concat (received w))
              else subseq (echoes w) (received w)))"

lemma echo_inv_fresh [simp]: "echo_inv (fresh_worker f)"
  by (simp add: echo_inv_def fresh_worker_def)

lemma subseq_snoc: "subseq xs ys \<Longrightarrow> subseq xs (ys @ [y])"
  using list_emb_append_mono [of "(=)" xs ys "[]" "[y]"] by simp

lemma echo_inv_step:
  assumes "worker_step budget charge (g, n, c, w) (g', n', c', w')" and "echo_inv w"
  shows "echo_inv w'"
  using assms
  by (cases rule: worker_stepE)
    (auto simp: echo_inv_def prefix_def subseq_snoc concat_append take_is_prefix [unfolded prefix_def]
      intro: list_emb_append_mono split: if_splits)

lemma echo_inv_exact:
  assumes "echo_inv w"
  shows "flow w = StreamFlow \<Longrightarrow> prefix (concat (echoes w)) (concat (received w))"
    and "flow w = DatagramFlow \<Longrightarrow> subseq (echoes w) (received w)"
    and "flow w = StreamFlow \<Longrightarrow> stage w = Reading \<Longrightarrow> echoes w = received w"
  using assms by (auto simp: echo_inv_def subseq_snoc split: stage.splits)

definition echo_ok :: "session \<Rightarrow> bool" where
  "echo_ok s \<longleftrightarrow> (\<forall>w \<in> set (workers s). echo_inv w)"

lemma echo_ok_step:
  assumes "session_step budget charge give (g, s) (g', s')" and "echo_ok s"
  shows "echo_ok s'"
  using assms(1)
proof (cases rule: session_stepE)
  case (work i n c w)
  have "echo_inv (workers s ! i)" using assms(2) work(2) by (simp add: echo_ok_def)
  with work(3) have "echo_inv w" by (rule echo_inv_step)
  with assms(2) show ?thesis unfolding work(1) echo_ok_def by (auto intro: all_set_update [THEN bspec])
qed (use assms(2) in \<open>auto simp: echo_ok_def dest: supervisor_step_frame\<close>)

lemma echo_ok_open: "echo_ok (open_session lifetime t a)"
  by (simp add: echo_ok_def open_session_def)

section \<open>Why a session is closed\<close>

text \<open>
  The reason on its way, from a loop that was refused through the channel to the close, is
  true: the budget reason only when the counter passed the budget, the lifetime reason only
  when the deadline passed.
\<close>

definition reason_true :: "int \<Rightarrow> session \<Rightarrow> string \<Rightarrow> bool" where
  "reason_true budget s why \<longleftrightarrow>
     why = budget_reason \<and> budget < tally s \<or> why = ceiling_reason \<or>
     why = lifetime_reason \<and> expires s \<le> wall s"

definition reasons_ok :: "int \<Rightarrow> session \<Rightarrow> bool" where
  "reasons_ok budget s \<longleftrightarrow>
     (\<forall>w \<in> set (workers s). \<forall>why. stage w = Stopping why \<longrightarrow> reason_true budget s why) \<and>
     (\<forall>why. stop_chan s = Some why \<longrightarrow> reason_true budget s why) \<and>
     (\<forall>why. phase s = Closing why \<longrightarrow> reason_true budget s why) \<and>
     (\<forall>why. close_reason s = Some why \<longrightarrow> reason_true budget s why) \<and>
     (cancelled s \<longrightarrow> phase s = Releasing \<or> phase s = Released)"

lemma reason_true_mono:
  "reason_true budget s why \<Longrightarrow> tally s \<le> tally s' \<Longrightarrow> wall s \<le> wall s' \<Longrightarrow> expires s' = expires s \<Longrightarrow>
    reason_true budget s' why"
  by (auto simp: reason_true_def)

lemma worker_step_stopping:
  assumes "worker_step budget charge (g, n, c, w) (g', n', c', w')"
  shows "(stage w' = Stopping why \<longrightarrow> why = budget_reason \<and> budget < n' \<or> why = ceiling_reason) \<and>
    (c' = c \<or> (\<exists>why. stage w = Stopping why \<and> c' = offer_stop why c))"
  using assms by (cases rule: worker_stepE) (auto split: if_splits)

lemma reasons_ok_step:
  assumes step: "session_step budget charge give (g, s) (g', s')" and ok: "reasons_ok budget s"
    and acc: "accounted budget s" "total offered s' < 2 ^ 63"
  shows "reasons_ok budget s'"
  using step
proof (cases rule: session_stepE)
  case (work i n c w)
  let ?s = "s\<lparr>tally := n, stop_chan := c, workers := (workers s)[i := w]\<rparr>"
  have "total offered s < 2 ^ 63" using session_step_offered [OF step] acc(2) by linarith
  then have "tally s + uncounted (workers s ! i) < 2 ^ 63"
    using total_uncounted_ge [OF work(2)] acc(1) by (simp add: accounted_def)
  then have "tally s \<le> n"
    using worker_step_accounts [OF work(3)] acc(1) by (simp add: accounted_def)
  then have up: "reason_true budget s why \<Longrightarrow> reason_true budget ?s why" for why
    using reason_true_mono [of budget s why ?s] by simp
  have w: "stage w = Stopping why \<Longrightarrow> reason_true budget ?s why" for why
    using worker_step_stopping [OF work(3), of why] by (auto simp: reason_true_def)
  have at_i: "stage (workers s ! i) = Stopping why \<Longrightarrow> reason_true budget s why" for why
    using ok nth_mem [OF work(2)] by (auto simp: reasons_ok_def)
  have c: "reason_true budget ?s why" if "c = Some why" for why
    using worker_step_stopping [OF work(3), THEN conjunct2]
  proof (elim conjE disjE exE)
    assume "c = stop_chan s"
    with that ok up show ?thesis by (simp add: reasons_ok_def)
  next
    fix why' assume "stage (workers s ! i) = Stopping why'" "c = offer_stop why' (stop_chan s)"
    with that ok up at_i show ?thesis
      by (cases "stop_chan s") (simp_all add: reasons_ok_def offer_stop_def)
  qed
  have "\<forall>w \<in> set ((workers s)[i := w]). \<forall>why. stage w = Stopping why \<longrightarrow> reason_true budget ?s why"
    by (rule all_set_update) (use ok up w in \<open>auto simp: reasons_ok_def\<close>)
  moreover have "\<forall>why. phase s = Closing why \<longrightarrow> reason_true budget ?s why"
    "\<forall>why. close_reason s = Some why \<longrightarrow> reason_true budget ?s why"
    using ok up by (auto simp: reasons_ok_def)
  ultimately show ?thesis using c ok unfolding work(1) by (simp add: reasons_ok_def)
next
  case supervise
  then show ?thesis
    using ok by (cases rule: supervisor_stepE) (auto simp: reasons_ok_def reason_true_def)
qed (use ok in \<open>auto simp: reasons_ok_def reason_true_def fresh_worker_def intro: order_trans\<close>)

lemma reasons_ok_open: "reasons_ok budget (open_session lifetime t a)"
  by (simp add: reasons_ok_def open_session_def fresh_worker_def)

text \<open>A counter above the budget never goes unnoticed.\<close>

definition stop_due :: "int \<Rightarrow> session \<Rightarrow> bool" where
  "stop_due budget s \<longleftrightarrow>
     (budget < tally s \<longrightarrow>
        phase s \<noteq> Selecting \<or> stop_chan s \<noteq> None \<or> (\<exists>w \<in> set (workers s). \<exists>why. stage w = Stopping why))"

lemma worker_step_due:
  assumes "worker_step budget charge (g, n, c, w) (g', n', c', w')" and "budget < n'"
  shows "(\<exists>why. stage w' = Stopping why) \<or> c' \<noteq> None \<or> (n' = n \<and> c' = c \<and> \<not> (\<exists>why. stage w = Stopping why))"
  using assms by (cases rule: worker_stepE) (auto simp: offer_stop_def split: option.splits)

lemma stop_due_step:
  assumes "session_step budget charge give (g, s) (g', s')" and "stop_due budget s"
  shows "stop_due budget s'"
  using assms(1)
proof (cases rule: session_stepE)
  case (work i n c w)
  consider "n \<le> budget" | "\<exists>why. stage w = Stopping why" | "c \<noteq> None"
    | "n = tally s" "c = stop_chan s" "\<not> (\<exists>why. stage (workers s ! i) = Stopping why)"
    using worker_step_due [OF work(3)] by fastforce
  then show ?thesis
  proof cases
    case 2
    then show ?thesis using work(1,2) by (force simp: stop_due_def set_update_memI)
  next
    case 4
    have keep: "\<exists>w' \<in> set ((workers s)[i := w]). \<exists>why. stage w' = Stopping why"
      if m: "w' \<in> set (workers s)" and "stage w' = Stopping why" for w' why
    proof -
      obtain j where "j < length (workers s)" "workers s ! j = w'" using m unfolding in_set_conv_nth by blast
      moreover have "j \<noteq> i" using 4(3) calculation(2) that(2) by metis
      ultimately have "j < length ((workers s)[i := w])" "(workers s)[i := w] ! j = w'" by simp_all
      then have "w' \<in> set ((workers s)[i := w])" by (metis nth_mem)
      with that(2) show ?thesis by blast
    qed
    then show ?thesis using assms(2) unfolding work(1) stop_due_def 4(1,2) by simp blast
  qed (use work(1) in \<open>auto simp: stop_due_def\<close>)
next
  case supervise
  then show ?thesis using assms(2) by (cases rule: supervisor_stepE) (auto simp: stop_due_def)
qed (use assms(2) in \<open>auto simp: stop_due_def\<close>)

lemma stop_due_open: "0 \<le> budget \<Longrightarrow> stop_due budget (open_session lifetime t a)"
  by (simp add: stop_due_def open_session_def)

section \<open>The supervisor frees the slot\<close>

text \<open>The statements the supervisor still has to run.\<close>

definition statements_left :: "phase \<Rightarrow> nat" where
  "statements_left p =
     (case p of Selecting \<Rightarrow> 4 | Closing _ \<Rightarrow> 3 | Cancelling \<Rightarrow> 2 | Releasing \<Rightarrow> 1 | Released \<Rightarrow> 0)"

text \<open>One of the three channels of the \<open>select\<close> is ready, or the \<open>select\<close> is behind it.\<close>

definition roused :: "session \<Rightarrow> bool" where
  "roused s \<longleftrightarrow> (phase s = Selecting \<longrightarrow> stop_chan s \<noteq> None \<or> expires s \<le> wall s \<or> cancelled s \<or> over s)"

lemma supervisor_step_progress:
  assumes "supervisor_step give (g, s) (g', s')"
  shows "statements_left (phase s') < statements_left (phase s) \<and>
    g' = (if phase s' = Released then give (peer_key s) g else g)"
  using assms by (cases rule: supervisor_stepE) (simp_all add: statements_left_def)

lemma roused_later: "phase s \<noteq> Selecting \<Longrightarrow> roused s"
  by (simp add: roused_def)

lemma supervisor_step_ready:
  assumes "phase s \<noteq> Released" and "roused s"
  shows "\<exists>g' s'. supervisor_step give (g, s) (g', s') \<and> roused s'"
proof (cases "phase s")
  case Selecting
  with assms(2) consider why where "stop_chan s = Some why" | "expires s \<le> wall s \<or> cancelled s" | "over s"
    by (auto simp: roused_def)
  then show ?thesis
    by cases
      (rule exI, rule exI, rule conjI, erule select_stopped [OF Selecting] select_deadline [OF Selecting]
        select_over [OF Selecting], simp add: roused_later)+
next
  case (Closing why)
  from close_session [OF this] show ?thesis by (intro exI conjI) (assumption, simp add: roused_later)
next
  case Cancelling
  from cancel [OF this] show ?thesis by (intro exI conjI) (assumption, simp add: roused_later)
next
  case Releasing
  from release_slot [OF this] show ?thesis by (intro exI conjI) (assumption, simp add: roused_later)
qed (use assms(1) in simp)

lemma supervisor_done:
  assumes "roused s" and "phase s \<noteq> Released"
  shows "\<exists>n \<le> statements_left (phase s). \<exists>s'. (supervisor_step give ^^ n) (g, s) (give (peer_key s) g, s') \<and>
    phase s' = Released"
  using assms
proof (induction "statements_left (phase s)" arbitrary: g s rule: less_induct)
  case less
  obtain g\<^sub>1 s\<^sub>1 where st: "supervisor_step give (g, s) (g\<^sub>1, s\<^sub>1)" and r: "roused s\<^sub>1"
    using supervisor_step_ready [OF less.prems(2,1), where give = give and g = g] by blast
  note p = supervisor_step_progress [OF st] and k = supervisor_step_frame [OF st]
  show ?case
  proof (cases "phase s\<^sub>1 = Released")
    case True
    have "(supervisor_step give ^^ 1) (g, s) (give (peer_key s) g, s\<^sub>1)" using st p True by (auto simp: eq_OO)
    with p True show ?thesis by (intro exI [of _ "1 :: nat"]) auto
  next
    case False
    from less.hyps [OF _ r False, of g\<^sub>1] p False k obtain n s' where
      "n \<le> statements_left (phase s\<^sub>1)" "(supervisor_step give ^^ n) (g, s\<^sub>1) (give (peer_key s) g, s')"
      "phase s' = Released" by auto
    with st p False have "(supervisor_step give ^^ Suc n) (g, s) (give (peer_key s) g, s')" "Suc n \<le> statements_left (phase s)"
      using relpowp_Suc_I2 [of "supervisor_step give" "(g, s)" "(g, s\<^sub>1)" n] by auto
    with \<open>phase s' = Released\<close> show ?thesis by blast
  qed
qed

lemma supervisor_frees:
  assumes "(supervisor_step give)\<^sup>*\<^sup>* (g, s) (g', s')"
  shows "peer_key s' = peer_key s \<and>
    g' = (if phase s' = Released \<and> phase s \<noteq> Released then give (peer_key s) g else g) \<and>
    (phase s = Released \<longrightarrow> phase s' = Released)"
  using assms
proof (induction "(g', s')" arbitrary: g' s' rule: rtranclp_induct)
  case (step y)
  obtain g\<^sub>1 s\<^sub>1 where y: "y = (g\<^sub>1, s\<^sub>1)" by fastforce
  have "phase s\<^sub>1 \<noteq> Released" using step.hyps(2) unfolding y by (cases rule: supervisor_stepE) auto
  with step.hyps(3) [OF y] supervisor_step_progress [OF step.hyps(2) [unfolded y]]
    supervisor_step_frame [OF step.hyps(2) [unfolded y]]
  show ?case by auto
qed auto

text \<open>No other step of the session moves the supervisor or undoes what roused it.\<close>

lemma session_step_phase:
  assumes "session_step budget charge give (g, s) (g', s')"
  shows "supervisor_step give (g, s) (g', s') \<or> phase s' = phase s \<and> (roused s \<longrightarrow> roused s')"
  using assms
proof (cases rule: session_stepE)
  case (work i n c w)
  have "stop_chan s \<noteq> None \<Longrightarrow> c \<noteq> None"
    using work(3) by (cases rule: worker_stepE) (auto simp: offer_stop_def)
  then show ?thesis unfolding work(1) roused_def by auto
qed (auto simp: roused_def)

section \<open>Where the ceiling's reason comes from\<close>

text \<open>The ceiling's reason is on its way or has been given; only a refused charge starts it.\<close>

definition says_ceiling :: "session \<Rightarrow> bool" where
  "says_ceiling s \<longleftrightarrow>
     (\<exists>w \<in> set (workers s). stage w = Stopping ceiling_reason) \<or> stop_chan s = Some ceiling_reason \<or>
     phase s = Closing ceiling_reason \<or> close_reason s = Some ceiling_reason"

lemma says_ceiling_open [simp]: "\<not> says_ceiling (open_session lifetime t a)"
  by (simp add: says_ceiling_def open_session_def fresh_worker_def)

lemma worker_step_ceiling:
  assumes "worker_step budget charge (g, n, c, w) (g', n', c', w')"
    and "stage w' = Stopping ceiling_reason \<or> c' = Some ceiling_reason"
  shows "stage w = Stopping ceiling_reason \<or> c = Some ceiling_reason \<or>
    (\<exists>t m l. fst t \<le> snd t \<and> charge t m g = ((False, l), g'))"
  using assms
proof (cases rule: worker_stepE)
  case (charge data err t ok l)
  show ?thesis
  proof (cases ok)
    case False
    with charge(3) have "charge t (int (length data)) g = ((False, l), g')" by simp
    with charge(2) show ?thesis by blast
  qed (use charge assms(2) in auto)
qed (use assms(2) in \<open>auto simp: offer_stop_def split: if_splits option.splits\<close>)

lemma says_ceiling_step:
  assumes "session_step budget charge give (g, s) (g', s')" and "says_ceiling s'"
  shows "says_ceiling s \<or> (\<exists>t m l. fst t \<le> snd t \<and> charge t m g = ((False, l), g'))"
  using assms(1)
proof (cases rule: session_stepE)
  case (work i n c w)
  consider "stage w = Stopping ceiling_reason \<or> c = Some ceiling_reason"
    | w' where "w' \<in> set (workers s)" "stage w' = Stopping ceiling_reason"
    | "phase s = Closing ceiling_reason \<or> close_reason s = Some ceiling_reason"
    using assms(2) set_update_subset_insert [of "workers s" i w] unfolding work(1) says_ceiling_def by auto
  then show ?thesis
  proof cases
    case 1
    with worker_step_ceiling [OF work(3)] nth_mem [OF work(2)] show ?thesis unfolding says_ceiling_def by blast
  qed (auto simp: says_ceiling_def)
next
  case supervise
  then show ?thesis using assms(2) by (cases rule: supervisor_stepE) (auto simp: says_ceiling_def)
qed (use assms(2) in \<open>auto simp: says_ceiling_def fresh_worker_def\<close>)

end
