(* ===== verification/Budgets.thy ===== *)
theory Budgets
  imports Guard
begin

text \<open>
  The budgets of the main binary (\<open>main.go\<close>): the constants, the \<open>budgets\<close> struct, and
  its methods \<open>roll\<close>, \<open>acquire\<close>, \<open>release\<close> and \<open>spend\<close>. Each of the last three
  runs under \<open>b.mu\<close> from its first statement to its return, so each is one function from
  state to state.
\<close>

section \<open>Constants and state\<close>

definition sessionEchoBudget :: int where
  "sessionEchoBudget = 1 * 2 ^ 20"

definition sessionLifetime :: duration where
  "sessionLifetime = 120 * second"

definition perAddressSessions :: int where
  "perAddressSessions = 4"

definition dailyEgressCeiling :: int where
  "dailyEgressCeiling = 2 * 2 ^ 30"

text \<open>\<open>type budgets struct\<close>; the mutex is the atomicity of the operations.\<close>

record budgets =
  sessions :: "string \<rightharpoonup> int"
  echoed :: int
  windowAt :: instant
  warned :: bool

text \<open>\<open>var limits\<close>, given the clock reading of the program's initialisation.\<close>

definition limits :: "instant \<Rightarrow> budgets" where
  "limits now = \<lparr>sessions = Map.empty, echoed = 0, windowAt = now, warned = False\<rparr>"

section \<open>Operations\<close>

text \<open>
  \<open>roll\<close> reads the clock in \<open>time.Since\<close> and, when the window has lapsed, again in
  \<open>time.Now\<close>: the pair holds the two readings.
\<close>

definition roll :: "clock \<Rightarrow> budgets \<Rightarrow> budgets" where
  "roll c b = (case c of (since, now) \<Rightarrow>
     if since - windowAt b \<ge> 24 * hour
     then b\<lparr>echoed := 0, windowAt := now, warned := False\<rparr>
     else b)"

definition acquire :: "clock \<Rightarrow> string \<Rightarrow> budgets \<Rightarrow> (bool \<times> string) \<times> budgets" where
  "acquire c address b =
     (let b = roll c b in
      if echoed b \<ge> dailyEgressCeiling then ((False, ''daily egress ceiling''), b)
      else if count_at (sessions b) address \<ge> perAddressSessions
        then ((False, ''per-address session cap''), b)
      else ((True, ''''), b\<lparr>sessions := (sessions b)(address \<mapsto> count_at (sessions b) address + 1)\<rparr>))"

definition release :: "string \<Rightarrow> budgets \<Rightarrow> budgets" where
  "release address b =
     (if count_at (sessions b) address \<le> 1
      then b\<lparr>sessions := (sessions b)(address := None)\<rparr>
      else b\<lparr>sessions := (sessions b)(address \<mapsto> count_at (sessions b) address - 1)\<rparr>)"

text \<open>The line \<open>spend\<close> logs the first time a window reaches the ceiling, with its byte count.\<close>

datatype alarm = EgressCeiling int

definition spend :: "clock \<Rightarrow> int \<Rightarrow> budgets \<Rightarrow> (bool \<times> alarm list) \<times> budgets" where
  "spend c n b =
     (let b = roll c b; b = b\<lparr>echoed := wrap64 (echoed b + n)\<rparr> in
      if echoed b < dailyEgressCeiling then ((True, []), b)
      else if \<not> warned b then ((False, [EgressCeiling (echoed b)]), b\<lparr>warned := True\<rparr>)
      else ((False, []), b))"

section \<open>Lemmas\<close>

lemmas constants = sessionEchoBudget_def sessionLifetime_def perAddressSessions_def
  dailyEgressCeiling_def

text \<open>\<open>roll\<close> never touches the sessions, and resets exactly when a day has passed.\<close>

lemma sessions_roll [simp]: "sessions (roll c b) = sessions b"
  by (simp add: roll_def split: prod.splits)

lemma roll_fresh: "t - windowAt b \<ge> day \<Longrightarrow> roll (t, t') b = b\<lparr>echoed := 0, windowAt := t', warned := False\<rparr>"
  by (simp add: roll_def)

lemma roll_same: "t - windowAt b < day \<Longrightarrow> roll (t, t') b = b"
  by (simp add: roll_def)

lemma sessions_spend [simp]: "sessions (snd (spend c n b)) = sessions b"
  by (simp add: spend_def Let_def)

text \<open>
  Every key of the sessions map has a count between 1 and the cap: keys never linger at
  zero, so the map only holds addresses with a session.
\<close>

definition tidy_sessions :: "budgets \<Rightarrow> bool" where
  "tidy_sessions b \<longleftrightarrow> (\<forall>a n. sessions b a = Some n \<longrightarrow> 1 \<le> n \<and> n \<le> perAddressSessions)"

lemma tidy_limits: "tidy_sessions (limits now)"
  by (simp add: tidy_sessions_def limits_def)

lemma tidy_keys: "tidy_sessions b \<Longrightarrow> dom (sessions b) = {a. 0 < count_at (sessions b) a}"
  by (force simp: tidy_sessions_def count_at_def dom_def split: option.splits)

lemma tidy_count: "tidy_sessions b \<Longrightarrow> 0 \<le> count_at (sessions b) a \<and> count_at (sessions b) a \<le> perAddressSessions"
  by (force simp: tidy_sessions_def count_at_def perAddressSessions_def split: option.splits)

lemma tidy_cong: "sessions b' = sessions b \<Longrightarrow> tidy_sessions b' = tidy_sessions b"
  by (simp add: tidy_sessions_def)

lemma acquire_yes:
  assumes "tidy_sessions b" and "acquire c a b = ((True, w), b')"
  shows "tidy_sessions b' \<and> count_at (sessions b) a < perAddressSessions \<and>
    count_at (sessions b') = (count_at (sessions b))(a := count_at (sessions b) a + 1)"
proof -
  have lt: "count_at (sessions b) a < perAddressSessions"
    and s: "sessions b' = (sessions b)(a \<mapsto> count_at (sessions b) a + 1)"
    using assms(2) by (auto simp: acquire_def Let_def split: if_splits)
  have "count_at (sessions b') = (count_at (sessions b))(a := count_at (sessions b) a + 1)"
    by (simp add: s fun_eq_iff)
  moreover have "tidy_sessions b'"
    using assms(1) lt tidy_count [OF assms(1), of a] by (auto simp: s tidy_sessions_def)
  ultimately show ?thesis using lt by simp
qed

lemma acquire_no:
  assumes "acquire c a b = ((False, w), b')"
  shows "sessions b' = sessions b"
  using assms by (auto simp: acquire_def Let_def split: if_splits)

lemma release_tidy:
  assumes "tidy_sessions b"
  shows "tidy_sessions (release a b) \<and>
    count_at (sessions (release a b)) = (count_at (sessions b))(a := max 0 (count_at (sessions b) a - 1))"
proof -
  have "count_at (sessions (release a b)) = (count_at (sessions b))(a := max 0 (count_at (sessions b) a - 1))"
    using tidy_count [OF assms, of a] by (simp add: release_def fun_eq_iff)
  moreover have "tidy_sessions (release a b)"
    using assms tidy_count [OF assms, of a] by (auto simp: release_def tidy_sessions_def)
  ultimately show ?thesis by simp
qed

lemma spend_same:
  "spend (t, t') n b = ((ok, l), b') \<Longrightarrow> t - windowAt b < day \<Longrightarrow>
    windowAt b' = windowAt b \<and> echoed b' = wrap64 (echoed b + n) \<and> (ok \<longleftrightarrow> echoed b' < dailyEgressCeiling)"
  by (auto simp: spend_def roll_same Let_def split: if_splits)

lemma spend_fresh:
  "spend (t, t') n b = ((ok, l), b') \<Longrightarrow> day \<le> t - windowAt b \<Longrightarrow>
    windowAt b' = t' \<and> echoed b' = wrap64 n \<and> (ok \<longleftrightarrow> echoed b' < dailyEgressCeiling)"
  by (auto simp: spend_def roll_fresh Let_def split: if_splits)

section \<open>The guard's contract\<close>

interpretation main_ledger: slot_ledger
  "\<lambda>b. count_at (sessions b)" "\<lambda>b. dom (sessions b)" tidy_sessions "\<lambda>c (_ :: unit). acquire c" release
  "\<lambda>(c, n) b. snd (spend c n b)" "\<lambda>_. perAddressSessions" perAddressSessions
proof (unfold_locales, goal_cases)
  case 1 show ?case by (simp add: perAddressSessions_def)
next
  case (2 b) then show ?case by (rule tidy_keys)
next
  case (3 b c k a w b') then show ?case by (rule acquire_yes)
next
  case (4 b c k a w b') then show ?case using acquire_no [OF 4(2)] tidy_cong [OF acquire_no [OF 4(2)]] by simp
next
  case (5 b a) then show ?case by (rule release_tidy)
next
  case (6 b x) then show ?case using tidy_cong [of "snd (spend (fst x) (snd x) b)" b] by (cases x) simp
qed

interpretation main_meter: egress_meter echoed windowAt spend dailyEgressCeiling
proof (unfold_locales, goal_cases)
  case 1 show ?case by (simp add: dailyEgressCeiling_def)
next
  case (2 t\<^sub>1 t\<^sub>2 n b ok l b') then show ?case by (rule spend_same)
next
  case (3 t\<^sub>1 t\<^sub>2 n b ok l b') then show ?case by (rule spend_fresh)
qed

section \<open>Properties\<close>

text \<open>
  The calls a run of the ledger makes on the main binary's budgets: \<open>acquire\<close>, \<open>release\<close>
  of a slot that is held, and \<open>spend\<close>, in any order.
\<close>

definition main_run :: "budgets \<times> unit ticket multiset \<Rightarrow> budgets \<times> unit ticket multiset \<Rightarrow> bool" where
  "main_run = ledger_run (\<lambda>c _. acquire c) release (\<lambda>(c, n) b. snd (spend c n b))"

text \<open>
  C10: In every run of \<open>acquire\<close>, \<open>release\<close> and \<open>spend\<close> from the initial budgets, the
  count of each address is the number of its sessions that are still open, never above the
  per-address cap of four, and the map's keys are exactly the addresses with an open session.
\<close>

theorem sessions_accounted:
  assumes "main_run (limits t, {#}) (b, M)"
  shows "count_at (sessions b) a = slots_of M a \<and> slots_of M a \<le> perAddressSessions \<and>
    dom (sessions b) = snd ` set_mset M"
  using main_ledger.run_from_idle [OF assms [unfolded main_run_def], of a] tidy_limits
  by (simp add: limits_def)

theorem sessions_accounted_witness:
  "\<exists>b. main_run (limits 0, {#}) (b, {#((), ''10.0.0.1'')#}) \<and>
    count_at (sessions b) ''10.0.0.1'' = 1 \<and> dom (sessions b) = {''10.0.0.1''}"
proof -
  let ?b = "snd (acquire (5, 6) ''10.0.0.1'' (limits 0))"
  have g: "acquire (5, 6) ''10.0.0.1'' (limits 0) = ((True, ''''), ?b)"
    by (simp add: acquire_def Let_def roll_def limits_def constants)
  have run: "main_run (limits 0, {#}) (?b, {#((), ''10.0.0.1'')#})"
    unfolding main_run_def ledger_run_def by (rule r_into_rtranclp) (rule ledger_step.granted, rule g)
  show ?thesis
    using run sessions_accounted [OF run, of "''10.0.0.1''"] by (intro exI [of _ ?b]) simp
qed

text \<open>
  C11: Whatever is spent and whenever, the bytes the process agreed to echo within one window
  stay strictly below the daily ceiling of 2 GiB, as long as the byte counts offered in all
  stay below \<open>2^63\<close>, so that the \<open>int64\<close> counter does not wrap.
\<close>

theorem daily_ceiling:
  assumes "meter_run spend windowAt cs (limits t) = (gs, b)"
    and "\<forall>x \<in> set cs. 0 \<le> snd x" and "sum_list (map snd cs) < 2 ^ 63" and "clocks_ordered t cs"
  shows "granted_in w gs < dailyEgressCeiling"
  using main_meter.window_bounded [OF assms(1)] assms(2-4) by (simp add: limits_def)

theorem daily_ceiling_witness:
  "\<exists>b. meter_run spend windowAt [((1, 2), 2147483000), ((3, 4), 1000), ((day + 5, day + 6), 700)] (limits 0) =
      ([(0, 2147483000), (day + 6, 700)], b) \<and>
    granted_in 0 [(0, 2147483000), (day + 6, 700)] < dailyEgressCeiling"
proof -
  let ?cs = "[((1, 2), 2147483000), ((3, 4), 1000), ((day + 5, day + 6), 700)]"
  let ?b = "snd (meter_run spend windowAt ?cs (limits 0))"
  have run: "meter_run spend windowAt ?cs (limits 0) = ([(0, 2147483000), (day + 6, 700)], ?b)"
    by (simp add: spend_def Let_def roll_def limits_def constants wrap64_id)
  show ?thesis
    using run daily_ceiling [OF run, of 0] by (intro exI [of _ ?b]) simp
qed

text \<open>
  C40: Once the counter has reached the ceiling, then until the window lapses every
  \<open>acquire\<close> is refused with its reason and every \<open>spend\<close> is refused; from the moment a
  day has passed, an address below its cap is admitted again.
\<close>

theorem ceiling_halts:
  assumes "dailyEgressCeiling \<le> echoed b" and "0 \<le> n" and "echoed b + n < 2 ^ 63"
  shows "(s - windowAt b < day \<longrightarrow>
      fst (acquire (s, t) a b) = (False, ''daily egress ceiling'') \<and> \<not> fst (fst (spend (s, t) n b))) \<and>
    (day \<le> s - windowAt b \<and> count_at (sessions b) a < perAddressSessions \<longrightarrow>
      fst (acquire (s, t) a b) = (True, ''''))"
  using assms
  by (auto simp: acquire_def spend_def roll_same roll_fresh wrap64_id Let_def constants)

theorem ceiling_halts_witness:
  "fst (acquire (3, 4) ''a'' ((limits 0)\<lparr>echoed := 2 ^ 31\<rparr>)) = (False, ''daily egress ceiling'') \<and>
    \<not> fst (fst (spend (3, 4) 10 ((limits 0)\<lparr>echoed := 2 ^ 31\<rparr>))) \<and>
    fst (acquire (day + 3, day + 4) ''a'' ((limits 0)\<lparr>echoed := 2 ^ 31\<rparr>)) = (True, '''')"
  using ceiling_halts [of "(limits 0)\<lparr>echoed := 2 ^ 31\<rparr>" 10 3 4 "''a''"]
    ceiling_halts [of "(limits 0)\<lparr>echoed := 2 ^ 31\<rparr>" 10 "day + 3" "day + 4" "''a''"]
  by (simp add: limits_def constants)

lemma alarms_in_window:
  assumes "\<forall>x \<in> set cs. fst (fst x) - windowAt b < day"
  shows "length (meter_log spend cs b) \<le> (if warned b then 0 else 1)"
  using assms
proof (induction cs arbitrary: b)
  case (Cons x cs)
  obtain s t n where x: "x = ((s, t), n)" by (metis prod.collapse)
  obtain ok l b' where sp: "spend (s, t) n b = ((ok, l), b')" by (metis prod.collapse)
  have in_w: "s - windowAt b < day" using Cons.prems x by auto
  then have b': "windowAt b' = windowAt b" "length l + (if warned b' then 0 else 1) \<le> (if warned b then 0 else 1)"
    using sp by (auto simp: spend_def roll_same Let_def split: if_splits)
  have "length (meter_log spend cs b') \<le> (if warned b' then 0 else 1)"
    using Cons.prems b'(1) by (intro Cons.IH) auto
  with b'(2) show ?case by (simp add: x sp)
qed simp

text \<open>
  The ceiling's alarm is logged at most once in a window, and only by a refused
  \<open>spend\<close>: while the clock stays within one window, any sequence of spends logs at most one
  line, and none once the window has warned.
\<close>

lemma alarm_once:
  assumes "\<forall>x \<in> set cs. fst (fst x) - t < day"
  shows "length (meter_log spend cs (limits t)) \<le> 1 \<and>
    (meter_log spend [((s, u), n)] b \<noteq> [] \<longrightarrow> \<not> fst (fst (spend (s, u) n b)))"
proof -
  have "windowAt (limits t) = t" "\<not> warned (limits t)" by (simp_all add: limits_def)
  then have "length (meter_log spend cs (limits t)) \<le> 1"
    using alarms_in_window [of cs "limits t"] assms by simp
  moreover have "meter_log spend [((s, u), n)] b = snd (fst (spend (s, u) n b))"
    by (simp split: prod.splits)
  ultimately show ?thesis by (auto simp: spend_def Let_def split: if_splits)
qed

end
