(* ===== verification/Legacy_Budgets.thy ===== *)
theory Legacy_Budgets
  imports Budgets
begin

text \<open>
  The budgets of the legacy binary (\<open>legacy/main.go\<close>). It is a module of its own with its
  own copy of the struct and its methods; \<open>acquire\<close> takes a flag for the flow-control probe,
  which has its own byte budget, lifetime and per-address cap. The methods refine those of
  \<open>Budgets\<close> through \<open>main_of\<close>, and the contract of \<open>Guard\<close> is discharged here too.
\<close>

section \<open>Constants and state\<close>

definition legacy_sessionEchoBudget :: int where
  "legacy_sessionEchoBudget = 1 * 2 ^ 20"

definition legacy_sessionLifetime :: duration where
  "legacy_sessionLifetime = 120 * second"

definition legacy_perAddressSessions :: int where
  "legacy_perAddressSessions = 4"

definition legacy_dailyEgressCeiling :: int where
  "legacy_dailyEgressCeiling = 2 * 2 ^ 30"

definition probeEchoBudget :: int where
  "probeEchoBudget = 64 * 2 ^ 20"

definition probeLifetime :: duration where
  "probeLifetime = 10 * minute"

definition probeSessions :: int where
  "probeSessions = 1"

record legacy_budgets =
  legacy_sessions :: "string \<rightharpoonup> int"
  legacy_echoed :: int
  legacy_windowAt :: instant
  legacy_warned :: bool

definition legacy_limits :: "instant \<Rightarrow> legacy_budgets" where
  "legacy_limits now =
     \<lparr>legacy_sessions = Map.empty, legacy_echoed = 0, legacy_windowAt = now, legacy_warned = False\<rparr>"

section \<open>Operations\<close>

definition legacy_roll :: "clock \<Rightarrow> legacy_budgets \<Rightarrow> legacy_budgets" where
  "legacy_roll c b = (case c of (since, now) \<Rightarrow>
     if since - legacy_windowAt b \<ge> 24 * hour
     then b\<lparr>legacy_echoed := 0, legacy_windowAt := now, legacy_warned := False\<rparr>
     else b)"

definition legacy_acquire ::
  "clock \<Rightarrow> bool \<Rightarrow> string \<Rightarrow> legacy_budgets \<Rightarrow> (bool \<times> string) \<times> legacy_budgets" where
  "legacy_acquire c probe address b =
     (let b = legacy_roll c b in
      if legacy_echoed b \<ge> legacy_dailyEgressCeiling then ((False, ''daily egress ceiling''), b)
      else
        let cap = legacy_perAddressSessions; cap = (if probe then probeSessions else cap) in
        if count_at (legacy_sessions b) address \<ge> cap then ((False, ''per-address session cap''), b)
        else ((True, ''''),
          b\<lparr>legacy_sessions := (legacy_sessions b)(address \<mapsto> count_at (legacy_sessions b) address + 1)\<rparr>))"

definition legacy_release :: "string \<Rightarrow> legacy_budgets \<Rightarrow> legacy_budgets" where
  "legacy_release address b =
     (if count_at (legacy_sessions b) address \<le> 1
      then b\<lparr>legacy_sessions := (legacy_sessions b)(address := None)\<rparr>
      else b\<lparr>legacy_sessions := (legacy_sessions b)(address \<mapsto> count_at (legacy_sessions b) address - 1)\<rparr>)"

definition legacy_spend :: "clock \<Rightarrow> int \<Rightarrow> legacy_budgets \<Rightarrow> (bool \<times> alarm list) \<times> legacy_budgets" where
  "legacy_spend c n b =
     (let b = legacy_roll c b; b = b\<lparr>legacy_echoed := wrap64 (legacy_echoed b + n)\<rparr> in
      if legacy_echoed b < legacy_dailyEgressCeiling then ((True, []), b)
      else if \<not> legacy_warned b
        then ((False, [EgressCeiling (legacy_echoed b)]), b\<lparr>legacy_warned := True\<rparr>)
      else ((False, []), b))"

lemmas legacy_constants = legacy_sessionEchoBudget_def legacy_sessionLifetime_def
  legacy_perAddressSessions_def legacy_dailyEgressCeiling_def probeEchoBudget_def
  probeLifetime_def probeSessions_def

section \<open>Refinement of the main binary's guard\<close>

definition main_of :: "legacy_budgets \<Rightarrow> budgets" where
  "main_of b = \<lparr>sessions = legacy_sessions b, echoed = legacy_echoed b,
     windowAt = legacy_windowAt b, warned = legacy_warned b\<rparr>"

lemma main_of_sel [simp]:
  "sessions (main_of b) = legacy_sessions b" "echoed (main_of b) = legacy_echoed b"
  "windowAt (main_of b) = legacy_windowAt b" "warned (main_of b) = legacy_warned b"
  by (simp_all add: main_of_def)

lemma main_of_limits: "main_of (legacy_limits now) = limits now"
  by (simp add: main_of_def legacy_limits_def limits_def)

lemma main_of_roll: "main_of (legacy_roll c b) = roll c (main_of b)"
  by (simp add: main_of_def legacy_roll_def roll_def split: prod.splits)

lemma main_of_release: "main_of (legacy_release a b) = release a (main_of b)"
  by (simp add: main_of_def legacy_release_def release_def)

lemma main_of_spend:
  "map_prod id main_of (legacy_spend c n b) = spend c n (main_of b)"
  unfolding legacy_spend_def spend_def Let_def main_of_roll [symmetric]
  by (simp add: main_of_def legacy_dailyEgressCeiling_def dailyEgressCeiling_def)

lemma main_of_acquire:
  "map_prod id main_of (legacy_acquire c False a b) = acquire c a (main_of b)"
  unfolding legacy_acquire_def acquire_def Let_def main_of_roll [symmetric]
  by (simp add: main_of_def legacy_dailyEgressCeiling_def dailyEgressCeiling_def
      legacy_perAddressSessions_def perAddressSessions_def)

text \<open>The probe's \<open>acquire\<close> is the plain one, further restricted to addresses without a session.\<close>

lemma legacy_sessions_roll [simp]: "legacy_sessions (legacy_roll c b) = legacy_sessions b"
  by (simp add: legacy_roll_def split: prod.splits)

lemma probe_acquire:
  "legacy_acquire c True a b =
     (if count_at (legacy_sessions b) a \<ge> 1 \<and> legacy_echoed (legacy_roll c b) < legacy_dailyEgressCeiling
      then ((False, ''per-address session cap''), legacy_roll c b)
      else legacy_acquire c False a b)"
  by (simp add: legacy_acquire_def Let_def probeSessions_def legacy_perAddressSessions_def)

section \<open>The guard's contract\<close>

definition legacy_cap :: "bool \<Rightarrow> int" where
  "legacy_cap probe = (if probe then probeSessions else legacy_perAddressSessions)"

abbreviation legacy_tidy :: "legacy_budgets \<Rightarrow> bool" where
  "legacy_tidy b \<equiv> tidy_sessions (main_of b)"

lemma legacy_acquire_yes:
  assumes t: "legacy_tidy b" and g: "legacy_acquire c k a b = ((True, w), b')"
  shows "legacy_tidy b' \<and> count_at (legacy_sessions b) a < legacy_cap k \<and>
    count_at (legacy_sessions b') = (count_at (legacy_sessions b))(a := count_at (legacy_sessions b) a + 1)"
proof -
  have k: "count_at (legacy_sessions b) a < 1" if k
    using g that by (auto simp: legacy_acquire_def Let_def probeSessions_def split: if_splits)
  have f: "legacy_acquire c False a b = ((True, w), b')"
    using g by (cases k) (simp_all add: probe_acquire split: if_splits)
  have "acquire c a (main_of b) = ((True, w), main_of b')"
    using main_of_acquire [of c a b] f by simp
  from acquire_yes [OF t this] k show ?thesis
    by (auto simp: legacy_cap_def legacy_perAddressSessions_def perAddressSessions_def probeSessions_def)
qed

lemma legacy_acquire_no:
  assumes "legacy_acquire c k a b = ((False, w), b')"
  shows "legacy_sessions b' = legacy_sessions b"
  using assms by (auto simp: legacy_acquire_def Let_def split: if_splits)

lemma legacy_release_tidy:
  assumes "legacy_tidy b"
  shows "legacy_tidy (legacy_release a b) \<and> count_at (legacy_sessions (legacy_release a b)) =
    (count_at (legacy_sessions b))(a := max 0 (count_at (legacy_sessions b) a - 1))"
  using release_tidy [OF assms, of a] unfolding main_of_release [symmetric] by simp

lemma legacy_spend_sessions: "legacy_sessions (snd (legacy_spend c n b)) = legacy_sessions b"
  using sessions_spend [of c n "main_of b"] unfolding main_of_spend [symmetric]
  by (simp add: map_prod_def split: prod.splits)

lemma legacy_spend_main:
  "legacy_spend c n b = ((ok, l), b') \<Longrightarrow> spend c n (main_of b) = ((ok, l), main_of b')"
  using main_of_spend [of c n b] by simp

interpretation legacy_ledger: slot_ledger
  "\<lambda>b. count_at (legacy_sessions b)" "\<lambda>b. dom (legacy_sessions b)" legacy_tidy
  legacy_acquire legacy_release "\<lambda>(c, n) b. snd (legacy_spend c n b)"
  legacy_cap legacy_perAddressSessions
proof (unfold_locales, goal_cases)
  case 1 show ?case by (simp add: legacy_cap_def legacy_constants)
next
  case (2 b) then show ?case using tidy_keys by fastforce
next
  case (3 b c k a w b') then show ?case by (rule legacy_acquire_yes)
next
  case (4 b c k a w b')
  then show ?case using legacy_acquire_no [OF 4(2)] tidy_cong [of "main_of b'" "main_of b"] by simp
next
  case (5 b a) then show ?case by (rule legacy_release_tidy)
next
  case (6 b x)
  then show ?case
    using tidy_cong [of "main_of (snd (legacy_spend (fst x) (snd x) b))" "main_of b"]
    by (cases x) (simp add: legacy_spend_sessions)
qed

interpretation legacy_meter: egress_meter legacy_echoed legacy_windowAt legacy_spend legacy_dailyEgressCeiling
proof (unfold_locales, goal_cases)
  case 1 show ?case by (simp add: legacy_dailyEgressCeiling_def)
next
  case (2 t\<^sub>1 t\<^sub>2 n b ok l b')
  then show ?case using spend_same [OF legacy_spend_main [OF 2(1)]]
    by (simp add: legacy_dailyEgressCeiling_def dailyEgressCeiling_def)
next
  case (3 t\<^sub>1 t\<^sub>2 n b ok l b')
  then show ?case using spend_fresh [OF legacy_spend_main [OF 3(1)]]
    by (simp add: legacy_dailyEgressCeiling_def dailyEgressCeiling_def)
qed

section \<open>Properties\<close>

definition legacy_run ::
  "legacy_budgets \<times> bool ticket multiset \<Rightarrow> legacy_budgets \<times> bool ticket multiset \<Rightarrow> bool" where
  "legacy_run = ledger_run legacy_acquire legacy_release (\<lambda>(c, n) b. snd (legacy_spend c n b))"

text \<open>
  C12: The legacy binary's budgets refine the main binary's: initialised, rolled, released,
  spent from and (without the probe flag) acquired from, they give the same results and the
  same states, field by field.
\<close>

theorem legacy_guard_refines:
  "main_of (legacy_limits t) = limits t \<and> main_of (legacy_roll c b) = roll c (main_of b) \<and>
    main_of (legacy_release a b) = release a (main_of b) \<and>
    map_prod id main_of (legacy_spend c n b) = spend c n (main_of b) \<and>
    map_prod id main_of (legacy_acquire c False a b) = acquire c a (main_of b)"
  by (simp add: main_of_limits main_of_roll main_of_release main_of_spend main_of_acquire)

text \<open>
  C13: In every run of the legacy budgets, with ordinary and probe sessions mixed, an address
  never holds more than four slots, at most one of which is the flow-control probe's, and the
  counts are the sessions still open.
\<close>

theorem probe_at_most_once:
  assumes "legacy_run (legacy_limits t, {#}) (b, M)"
  shows "count_at (legacy_sessions b) a = slots_of M a \<and> slots_of M a \<le> legacy_perAddressSessions \<and>
    int (count M (True, a)) \<le> probeSessions \<and> dom (legacy_sessions b) = snd ` set_mset M"
  using legacy_ledger.run_from_idle [OF assms [unfolded legacy_run_def], of a True]
  by (simp add: legacy_limits_def legacy_cap_def main_of_limits [unfolded legacy_limits_def] tidy_limits)

theorem probe_at_most_once_witness:
  "\<exists>b. legacy_run (legacy_limits 0, {#}) (b, {#(False, ''a''), (True, ''a'')#}) \<and>
    count_at (legacy_sessions b) ''a'' = 2"
proof -
  let ?b\<^sub>1 = "snd (legacy_acquire (1, 1) True ''a'' (legacy_limits 0))"
  let ?b\<^sub>2 = "snd (legacy_acquire (2, 2) False ''a'' ?b\<^sub>1)"
  note eval = legacy_acquire_def Let_def legacy_roll_def legacy_limits_def legacy_constants
  have "legacy_acquire (1, 1) True ''a'' (legacy_limits 0) = ((True, ''''), ?b\<^sub>1)" by (simp add: eval)
  then have r\<^sub>1: "ledger_step legacy_acquire legacy_release (\<lambda>(c, n) b. snd (legacy_spend c n b))
      (legacy_limits 0, {#}) (?b\<^sub>1, {#(True, ''a'')#})"
    by (rule ledger_step.granted)
  have "legacy_acquire (2, 2) False ''a'' ?b\<^sub>1 = ((True, ''''), ?b\<^sub>2)" by (simp add: eval)
  then have r\<^sub>2: "ledger_step legacy_acquire legacy_release (\<lambda>(c, n) b. snd (legacy_spend c n b))
      (?b\<^sub>1, {#(True, ''a'')#}) (?b\<^sub>2, {#(False, ''a''), (True, ''a'')#})"
    by (rule ledger_step.granted)
  have run: "legacy_run (legacy_limits 0, {#}) (?b\<^sub>2, {#(False, ''a''), (True, ''a'')#})"
    unfolding legacy_run_def ledger_run_def
    using r\<^sub>1 r\<^sub>2 by (rule converse_rtranclp_into_rtranclp [OF _ r_into_rtranclp])
  show ?thesis
    using run probe_at_most_once [OF run, of "''a''"] by (intro exI [of _ ?b\<^sub>2]) simp
qed

text \<open>
  The probe's cap counts every session of the address, not the probe's own: an address
  with any session open on the legacy binary is refused the probe, while it is refused an
  ordinary session only at four.
\<close>

lemma probe_refused_by_ordinary:
  assumes "1 \<le> count_at (legacy_sessions b) a" and "legacy_echoed (legacy_roll c b) < legacy_dailyEgressCeiling"
  shows "fst (legacy_acquire c True a b) = (False, ''per-address session cap'') \<and>
    fst (fst (legacy_acquire c False a b)) = (count_at (legacy_sessions b) a < legacy_perAddressSessions)"
  using assms by (auto simp: legacy_acquire_def Let_def probeSessions_def)

end
