(* ===== verification/GoTime.thy ===== *)
theory GoTime
  imports GoNum "HOL-Library.Monad_Syntax"
begin

text \<open>
  What the observation record uses of the package \<open>time\<close>: the civil date of an instant in
  UTC, and the RFC 3339 text with nanoseconds that \<open>time.Time\<close> has in JSON, printed and
  parsed, with their round trip. An instant counts nanoseconds from 1970-01-01T00:00:00Z.
\<close>

section \<open>The calendar\<close>

definition leap :: "nat \<Rightarrow> bool" where
  "leap y \<longleftrightarrow> y mod 4 = 0 \<and> (y mod 100 \<noteq> 0 \<or> y mod 400 = 0)"

definition year_length :: "nat \<Rightarrow> nat" where
  "year_length y = (if leap y then 366 else 365)"

text \<open>Days from 0000-01-01 to the first of January of a year.\<close>

definition days_before :: "nat \<Rightarrow> nat" where
  "days_before y = 365 * y + (y + 3) div 4 + (y + 399) div 400 - (y + 99) div 100"

lemma hundredths: "(y + 99) div 100 \<le> (y + 3) div (4 :: nat)"
proof -
  have "(y + 99) div 100 * 100 \<le> y + 99" by (rule div_times_less_eq_dividend)
  then have "(y + 99) div 100 * 4 \<le> y + 3" by linarith
  then show ?thesis by (simp add: less_eq_div_iff_mult_less_eq)
qed

lemma round_up_Suc:
  assumes "0 < b"
  shows "(Suc y + (b - 1)) div b = (y + (b - 1)) div b + (if y mod b = 0 then 1 else (0 :: nat))"
  using assms div_Suc [of "y + (b - 1)" b] by simp

lemma days_before_Suc: "days_before (Suc y) = days_before y + year_length y"
proof -
  have d: "y mod 400 = 0 \<Longrightarrow> y mod 100 = 0" "y mod 100 = 0 \<Longrightarrow> y mod 4 = 0"
    unfolding mod_eq_0_iff_dvd by (auto elim: dvd_trans [rotated])
  have r: "(Suc y + 3) div 4 = (y + 3) div 4 + (if y mod 4 = 0 then 1 else 0)"
    "(Suc y + 99) div 100 = (y + 99) div 100 + (if y mod 100 = 0 then 1 else 0)"
    "(Suc y + 399) div 400 = (y + 399) div 400 + (if y mod 400 = 0 then 1 else 0)"
    using round_up_Suc [of 4 y] round_up_Suc [of 100 y] round_up_Suc [of 400 y] by simp_all
  have n: "(y + 99) div 100 \<le> 365 * y + (y + 3) div 4 + (y + 399) div 400"
    using hundredths [of y] by linarith
  show ?thesis
    unfolding days_before_def year_length_def leap_def r
    using n d by (cases "y mod 4 = 0"; cases "y mod 100 = 0"; cases "y mod 400 = 0") (simp_all add: ac_simps)
qed

lemma days_before_0 [simp]: "days_before 0 = 0"
  by (simp add: days_before_def)

lemma days_before_mono: "y \<le> y' \<Longrightarrow> days_before y \<le> days_before y'"
  by (induction y' rule: dec_induct) (simp_all add: days_before_Suc)

lemma days_before_lower: "365 * y \<le> days_before y"
  by (induction y) (simp_all add: days_before_Suc year_length_def)

lemma days_before_upper: "days_before y \<le> 366 * y"
  by (induction y) (simp_all add: days_before_Suc year_length_def)

function year_from :: "nat \<Rightarrow> nat \<Rightarrow> nat" where
  "year_from y d = (if days_before (Suc y) \<le> d then year_from (Suc y) d else y)"
  by pat_completeness auto
termination
proof (relation "measure (\<lambda>(y, d). Suc d - days_before y)", goal_cases)
  case (2 y d)
  have "days_before y < days_before (Suc y)" by (simp add: days_before_Suc year_length_def)
  with 2 show ?case by simp
qed simp

declare year_from.simps [simp del]

lemma year_from_finds:
  "days_before y \<le> d \<Longrightarrow> days_before (year_from y d) \<le> d \<and> d < days_before (Suc (year_from y d))"
proof (induction y d rule: year_from.induct)
  case (1 y d)
  then show ?case by (cases "days_before (Suc y) \<le> d") (simp_all add: year_from.simps [of y d])
qed

text \<open>The year of a day, the search starting from a year that cannot be too late.\<close>

definition year_of :: "nat \<Rightarrow> nat" where
  "year_of d = year_from (d div 366) d"

lemma year_of_finds: "days_before (year_of d) \<le> d \<and> d < days_before (Suc (year_of d))"
proof -
  have "366 * (d div 366) \<le> d" by simp
  then have "days_before (d div 366) \<le> d" using days_before_upper [of "d div 366"] by (rule le_trans [rotated])
  then show ?thesis unfolding year_of_def by (rule year_from_finds)
qed

lemma year_of_unique:
  assumes "days_before y \<le> d" and "d < days_before (Suc y)"
  shows "year_of d = y"
proof -
  have f: "days_before (year_of d) \<le> d" "d < days_before (Suc (year_of d))"
    using year_of_finds by simp_all
  show ?thesis
  proof (rule ccontr)
    assume "year_of d \<noteq> y"
    then have "Suc (year_of d) \<le> y \<or> Suc y \<le> year_of d" by linarith
    with assms f show False using days_before_mono by (meson leD le_trans)
  qed
qed

definition month_lengths :: "nat \<Rightarrow> nat list" where
  "month_lengths y = [31, if leap y then 29 else 28, 31, 30, 31, 30, 31, 31, 30, 31, 30, 31]"

lemma sum_month_lengths: "sum_list (month_lengths y) = year_length y"
  by (simp add: month_lengths_def year_length_def)

lemma month_lengths_bounds [simp]: "length (month_lengths y) = 12" "\<forall>l \<in> set (month_lengths y). l \<le> 31"
  by (simp_all add: month_lengths_def)

fun month_in :: "nat list \<Rightarrow> nat \<Rightarrow> nat \<times> nat" where
  "month_in [] d = (0, d)"
| "month_in (l # ls) d = (if d < l then (0, d) else apfst Suc (month_in ls (d - l)))"

lemma month_in_range:
  "d < sum_list ls \<Longrightarrow> fst (month_in ls d) < length ls \<and> snd (month_in ls d) < ls ! fst (month_in ls d) \<and>
    sum_list (take (fst (month_in ls d)) ls) + snd (month_in ls d) = d"
proof (induction ls arbitrary: d)
  case (Cons l ls)
  show ?case
  proof (cases "d < l")
    case False
    then have "d - l < sum_list ls" using Cons.prems by simp
    from Cons.IH [OF this] False show ?thesis by (cases "month_in ls (d - l)") auto
  qed simp
qed simp

text \<open>Year, month from 1 and day from 1 of a day counted from 0000-01-01, and back.\<close>

definition civil :: "nat \<Rightarrow> nat \<times> nat \<times> nat" where
  "civil d = (let y = year_of d; (m, k) = month_in (month_lengths y) (d - days_before y) in (y, m + 1, k + 1))"

definition civil_ok :: "nat \<Rightarrow> nat \<Rightarrow> nat \<Rightarrow> bool" where
  "civil_ok y m k \<longleftrightarrow> 1 \<le> m \<and> m \<le> 12 \<and> 1 \<le> k \<and> k \<le> month_lengths y ! (m - 1)"

definition from_civil :: "nat \<Rightarrow> nat \<Rightarrow> nat \<Rightarrow> nat" where
  "from_civil y m k = days_before y + sum_list (take (m - 1) (month_lengths y)) + (k - 1)"

lemma civil_roundtrip:
  assumes "civil d = (y, m, k)"
  shows "civil_ok y m k \<and> from_civil y m k = d"
proof -
  have f: "days_before (year_of d) \<le> d" "d < days_before (Suc (year_of d))"
    using year_of_finds by simp_all
  then have "d - days_before (year_of d) < sum_list (month_lengths (year_of d))"
    by (simp add: sum_month_lengths days_before_Suc)
  from month_in_range [OF this] f assms show ?thesis
    by (auto simp: civil_def civil_ok_def from_civil_def Let_def split: prod.splits)
qed

lemma civil_bounds:
  assumes "civil d = (y, m, k)"
  shows "y = year_of d \<and> 1 \<le> m \<and> m \<le> 12 \<and> 1 \<le> k \<and> k \<le> 31"
proof -
  have "month_lengths y ! (m - 1) \<le> 31" if "m - 1 < 12"
  proof -
    have "month_lengths y ! (m - 1) \<in> set (month_lengths y)" by (rule nth_mem) (use that in simp)
    then show ?thesis using month_lengths_bounds(2) by blast
  qed
  with civil_roundtrip [OF assms] assms show ?thesis
    by (auto simp: civil_ok_def civil_def Let_def split: prod.splits)
qed

section \<open>Fixed-width numbers\<close>

fun pad :: "nat \<Rightarrow> nat \<Rightarrow> string" where
  "pad 0 n = []"
| "pad (Suc k) n = pad k (n div 10) @ [digit_char (n mod 10)]"

definition take_num :: "nat \<Rightarrow> string \<Rightarrow> (nat \<times> string) option" where
  "take_num k s =
     (if length s < k then None
      else map_option (\<lambda>n. (n, drop k s)) (digits_value 10 0 (take k s)))"

definition expect :: "char \<Rightarrow> string \<Rightarrow> string option" where
  "expect c s = (case s of [] \<Rightarrow> None | x # xs \<Rightarrow> if x = c then Some xs else None)"

lemma expect_Cons [simp]: "expect c (c # s) = Some s"
  by (simp add: expect_def)

lemma length_pad [simp]: "length (pad k n) = k"
  by (induction k arbitrary: n) simp_all

lemma digits_value_pad:
  "digits_value 10 a (pad k n @ s) = digits_value 10 (a * 10 ^ k + n mod 10 ^ k) s"
proof (induction k arbitrary: n s)
  case (Suc k)
  have "n mod (10 * 10 ^ k) = 10 * (n div 10 mod 10 ^ k) + n mod 10" by (rule mod_mult2_eq)
  then show ?case by (simp add: Suc.IH algebra_simps)
qed simp

lemma take_num_pad [simp]: "n < 10 ^ k \<Longrightarrow> take_num k (pad k n @ s) = Some (n, s)"
  using digits_value_pad [of 0 k n "[]"] by (simp add: take_num_def)

lemma pad_decimal: "c \<in> set (pad k n) \<Longrightarrow> decimal c"
  by (induction k arbitrary: n) (auto simp: decimal_value)

lemma num_pad: "n < 10 ^ k \<Longrightarrow> digits_value 10 0 (pad k n) = Some n"
  using digits_value_pad [of 0 k n "[]"] by simp

section \<open>RFC 3339\<close>

text \<open>1970-01-01 counted from 0000-01-01.\<close>

definition unix_day :: int where
  "unix_day = 719528"

definition frac_text :: "nat \<Rightarrow> string" where
  "frac_text ns = (if ns = 0 then '''' else CHR ''.'' # trim_right (pad 9 ns) ''0'')"

text \<open>
  \<open>time.Time.MarshalJSON\<close> without its quotes, for a time in UTC: an error outside the
  years 0 to 9999.
\<close>

definition time_text :: "instant \<Rightarrow> string option" where
  "time_text t =
     (let d = t div day + unix_day; x = nat (t mod day) in
      if d < 0 then None
      else case civil (nat d) of (y, m, k) \<Rightarrow>
        if y > 9999 then None
        else Some (pad 4 y @ ''-'' @ pad 2 m @ ''-'' @ pad 2 k @ ''T'' @
          pad 2 (x div (3600 * 10 ^ 9)) @ '':'' @ pad 2 (x div (60 * 10 ^ 9) mod 60) @ '':'' @
          pad 2 (x div 10 ^ 9 mod 60) @ frac_text (x mod 10 ^ 9) @ ''Z''))"

definition parse_frac :: "string \<Rightarrow> (nat \<times> string) option" where
  "parse_frac s =
     (if has_prefix s ''.'' then
        (let ds = takeWhile decimal (tl s) in
         if ds = [] then None
         else map_option (\<lambda>n. (n, dropWhile decimal (tl s)))
           (digits_value 10 0 (take 9 (ds @ replicate 9 CHR ''0''))))
      else Some (0, s))"

text \<open>The zone: its offset in seconds.\<close>

definition parse_zone :: "string \<Rightarrow> int option" where
  "parse_zone s =
     (if s = ''Z'' then Some 0
      else if has_prefix s ''+'' \<or> has_prefix s ''-'' then
        do { (h, s') \<leftarrow> take_num 2 (tl s); s' \<leftarrow> expect CHR '':'' s'; (m, s') \<leftarrow> take_num 2 s';
             if s' = [] \<and> h \<le> 23 \<and> m \<le> 59
             then Some ((if has_prefix s ''-'' then - 1 else 1) * (int h * 3600 + int m * 60)) else None }
      else None)"

text \<open>The text between the quotes of a JSON time, RFC 3339 with an optional fraction.\<close>

definition parse_time :: "string \<Rightarrow> instant option" where
  "parse_time s =
     do { (y, s) \<leftarrow> take_num 4 s; s \<leftarrow> expect CHR ''-'' s; (m, s) \<leftarrow> take_num 2 s; s \<leftarrow> expect CHR ''-'' s;
          (k, s) \<leftarrow> take_num 2 s; s \<leftarrow> expect CHR ''T'' s; (h, s) \<leftarrow> take_num 2 s; s \<leftarrow> expect CHR '':'' s;
          (mi, s) \<leftarrow> take_num 2 s; s \<leftarrow> expect CHR '':'' s; (sec, s) \<leftarrow> take_num 2 s;
          (ns, s) \<leftarrow> parse_frac s; z \<leftarrow> parse_zone s;
          if civil_ok y m k \<and> h \<le> 23 \<and> mi \<le> 59 \<and> sec \<le> 59
          then Some ((int (from_civil y m k) - unix_day) * day +
            (int h * 3600 + int mi * 60 + int sec - z) * second + int ns)
          else None }"

lemma trim_right_restore:
  "trim_right s [c] @ replicate (length s - length (trim_right s [c])) c = s"
proof -
  define r where "r = takeWhile (\<lambda>x. x \<in> set [c]) (rev s)"
  have "\<forall>x \<in> set r. x = c" unfolding r_def using set_takeWhileD by fastforce
  then have "r = replicate (length r) c" by (simp add: replicate_length_same)
  then have r: "rev r = replicate (length r) c" by (metis rev_replicate)
  have s: "s = trim_right s [c] @ rev r"
    unfolding trim_right_def r_def by (metis rev_append rev_swap takeWhile_dropWhile_id)
  then have "length s = length (trim_right s [c]) + length r" by (metis length_append length_rev)
  then show ?thesis using s r by simp
qed

lemma parse_frac_text [simp]:
  assumes "ns < 10 ^ 9"
  shows "parse_frac (frac_text ns @ ''Z'') = Some (ns, ''Z'')"
proof (cases "ns = 0")
  case False
  define w where "w = trim_right (pad 9 ns) ''0''"
  have w: "w @ replicate (9 - length w) CHR ''0'' = pad 9 ns"
    unfolding w_def using trim_right_restore [of "pad 9 ns" "CHR ''0''"] by simp
  have "set w \<subseteq> set (pad 9 ns)" unfolding w [symmetric] by simp
  then have dw: "\<forall>c \<in> set w. decimal c" using pad_decimal by blast
  have "w \<noteq> []"
  proof
    assume "w = []"
    then have "digits_value 10 0 (replicate 9 CHR ''0'') = Some ns" using w num_pad [OF assms] by simp
    moreover have "digits_value 10 0 (replicate 9 CHR ''0'') = Some 0" by code_simp
    ultimately show False using False by simp
  qed
  moreover have "take 9 (w @ replicate 9 CHR ''0'') = pad 9 ns"
  proof -
    have "length (w @ replicate (9 - length w) CHR ''0'') = 9" unfolding w by simp
    then have "length w \<le> 9" by simp
    then have "w @ replicate 9 CHR ''0'' = pad 9 ns @ replicate (length w) CHR ''0''"
      unfolding w [symmetric] by (simp add: replicate_add [symmetric])
    then show ?thesis by simp
  qed
  moreover have "takeWhile decimal (w @ ''Z'') = w" "dropWhile decimal (w @ ''Z'') = ''Z''"
    using dw by (auto simp: takeWhile_append_stop dropWhile_append_stop decimal_def)
  ultimately show ?thesis
    using False num_pad [OF assms] by (simp add: parse_frac_def frac_text_def w_def [symmetric])
qed (simp add: parse_frac_def frac_text_def)

lemma clock_split:
  fixes x :: nat
  assumes "x < 24 * 3600 * 10 ^ 9"
  shows "x div (3600 * 10 ^ 9) \<le> 23"
    and "(x div (3600 * 10 ^ 9) * 3600 + x div (60 * 10 ^ 9) mod 60 * 60 + x div 10 ^ 9 mod 60) * 10 ^ 9 + x mod 10 ^ 9 = x"
proof -
  define q where "q = x div 10 ^ 9"
  have h: "x div (3600 * 10 ^ 9) = q div 3600" "x div (60 * 10 ^ 9) = q div 60"
    unfolding q_def by (simp_all add: div_mult2_eq [symmetric] mult.commute)
  have q: "q < 86400" using assms unfolding q_def by (simp add: less_mult_imp_div_less)
  then show "x div (3600 * 10 ^ 9) \<le> 23" unfolding h by linarith
  have "q div 3600 * 3600 + q div 60 mod 60 * 60 + q mod 60 = q"
    using mod_mult2_eq [of q 60 60] div_mult_mod_eq [of q 3600] by simp
  then show "(x div (3600 * 10 ^ 9) * 3600 + x div (60 * 10 ^ 9) mod 60 * 60 + x div 10 ^ 9 mod 60) * 10 ^ 9 + x mod 10 ^ 9 = x"
    unfolding h q_def [symmetric] by (simp add: q_def)
qed

lemma parse_time_text:
  assumes "time_text t = Some s"
  shows "parse_time s = Some t"
proof -
  define d where "d = t div day + unix_day"
  define x where "x = nat (t mod day)"
  obtain y m k where c: "civil (nat d) = (y, m, k)" by (metis prod.collapse)
  have "d \<ge> 0" "y \<le> 9999"
    and s: "s = pad 4 y @ ''-'' @ pad 2 m @ ''-'' @ pad 2 k @ ''T'' @
      pad 2 (x div (3600 * 10 ^ 9)) @ '':'' @ pad 2 (x div (60 * 10 ^ 9) mod 60) @ '':'' @
      pad 2 (x div 10 ^ 9 mod 60) @ frac_text (x mod 10 ^ 9) @ ''Z''"
    using assms c by (auto simp: time_text_def Let_def d_def x_def split: if_splits)
  have x: "x < 24 * 3600 * 10 ^ 9" "int x = t mod day" by (simp_all add: x_def)
  note cs = clock_split [OF x(1)]
  have b: "1 \<le> m" "m \<le> 12" "1 \<le> k" "k \<le> 31" using civil_bounds [OF c] by simp_all
  have ok: "civil_ok y m k" "int (from_civil y m k) = d" using civil_roundtrip [OF c] \<open>d \<ge> 0\<close> by simp_all
  have mods: "x div (60 * 10 ^ 9) mod 60 \<le> 59" "x div 10 ^ 9 mod 60 \<le> 59" "x mod 10 ^ 9 < 10 ^ 9"
    by (simp_all add: less_Suc_eq_le [symmetric])
  have sum: "(int (x div (3600 * 10 ^ 9)) * 3600 + int (x div (60 * 10 ^ 9) mod 60) * 60 + int (x div 10 ^ 9 mod 60)) * second
      + int (x mod 10 ^ 9) = t mod day"
    using arg_cong [OF cs(2), of int] unfolding x(2) by (simp only: of_nat_add of_nat_mult of_nat_numeral of_nat_power) simp
  have "parse_time s = Some ((d - unix_day) * day +
      (int (x div (3600 * 10 ^ 9)) * 3600 + int (x div (60 * 10 ^ 9) mod 60) * 60 + int (x div 10 ^ 9 mod 60) - 0) * second
        + int (x mod 10 ^ 9))"
    unfolding s parse_time_def using \<open>y \<le> 9999\<close> b ok mods cs(1) by (simp add: parse_zone_def)
  moreover have "(d - unix_day) * day + (int (x div (3600 * 10 ^ 9)) * 3600 + int (x div (60 * 10 ^ 9) mod 60) * 60 +
      int (x div 10 ^ 9 mod 60) - 0) * second + int (x mod 10 ^ 9) = t"
    unfolding d_def diff_0_right add_diff_cancel_right' by (subst add.assoc) (unfold sum, rule div_mult_mod_eq)
  ultimately show ?thesis by simp
qed

text \<open>Every time of the years 0 to 9999 has a text.\<close>

lemma time_text_total:
  assumes "- unix_day * day \<le> t" and "t < (3652425 - unix_day) * day"
  shows "time_text t \<noteq> None"
proof -
  have "- unix_day \<le> t div day"
    using zdiv_mono1 [OF assms(1), of day] by simp
  moreover have "0 \<le> t mod day" by simp
  with assms(2) div_mult_mod_eq [of t day] have "t div day * day < (3652425 - unix_day) * day" by linarith
  then have "t div day < 3652425 - unix_day" by (rule mult_right_less_imp_less) simp
  ultimately have d: "0 \<le> t div day + unix_day" "nat (t div day + unix_day) < days_before 10000"
    by (simp_all add: days_before_def)
  obtain y m k where c: "civil (nat (t div day + unix_day)) = (y, m, k)" by (metis prod.collapse)
  have "y = year_of (nat (t div day + unix_day))" using civil_bounds [OF c] by simp
  then have "days_before y < days_before 10000"
    using year_of_finds [of "nat (t div day + unix_day)"] d(2) by (auto intro: le_less_trans)
  then have "y < 10000" using days_before_mono [of 10000 y] by linarith
  with d(1) c show ?thesis by (simp add: time_text_def Let_def)
qed

text \<open>The epoch itself.\<close>

lemma epoch_text: "time_text 0 = Some ''1970-01-01T00:00:00Z''"
proof -
  have "year_of 719528 = 1970" by (rule year_of_unique) (simp_all add: days_before_def)
  then have "civil 719528 = (1970, 1, 1)" by (simp add: civil_def days_before_def month_lengths_def)
  moreover have "pad 4 1970 = ''1970''" "pad 2 1 = ''01''" "pad 2 0 = ''00''" by code_simp+
  ultimately show ?thesis by (simp add: time_text_def Let_def unix_day_def frac_text_def)
qed

end
