(* ===== verification/GoJson.thy ===== *)
theory GoJson
  imports GoTime
begin

text \<open>
  What the observation record uses of \<open>encoding/json\<close>: string literals, written with
  \<open>Marshal\<close>'s escapes and read back, and documents, parsed into values that keep the raw text
  of their strings. Invalid UTF-8 is replaced, on both sides, by U+FFFD.
\<close>

section \<open>UTF-8\<close>

definition within :: "nat \<Rightarrow> nat \<Rightarrow> char \<Rightarrow> bool" where
  "within lo hi c \<longleftrightarrow> lo \<le> ord c \<and> ord c \<le> hi"

abbreviation tail_byte :: "char \<Rightarrow> bool" where
  "tail_byte \<equiv> within 0x80 0xBF"

text \<open>The accepted second bytes for a first byte of a rune of three or four bytes.\<close>

definition second_ok :: "char \<Rightarrow> char \<Rightarrow> bool" where
  "second_ok c =
     (if ord c = 0xE0 then within 0xA0 0xBF
      else if ord c = 0xED then within 0x80 0x9F
      else if ord c = 0xF0 then within 0x90 0xBF
      else if ord c = 0xF4 then within 0x80 0x8F
      else tail_byte)"

text \<open>The width of the rune a string starts with, 0 when its first byte starts none.\<close>

fun rune_width :: "string \<Rightarrow> nat" where
  "rune_width [] = 0"
| "rune_width (c # s) =
     (if ord c < 0x80 then 1
      else if within 0xC2 0xDF c then
        (case s of b # _ \<Rightarrow> if tail_byte b then 2 else 0 | _ \<Rightarrow> 0)
      else if within 0xE0 0xEF c then
        (case s of b # d # _ \<Rightarrow> if second_ok c b \<and> tail_byte d then 3 else 0 | _ \<Rightarrow> 0)
      else if within 0xF0 0xF4 c then
        (case s of b # d # e # _ \<Rightarrow> if second_ok c b \<and> tail_byte d \<and> tail_byte e then 4 else 0 | _ \<Rightarrow> 0)
      else 0)"

definition replacement :: string where
  "replacement = [CHR 0xEF, CHR 0xBF, CHR 0xBD]"

lemma rune_width_le: "rune_width s \<le> length s"
  by (cases s) (auto split: list.splits)

text \<open>A valid rune stands alone, and its bytes are all outside ASCII when its first byte is.\<close>

lemma rune_alone:
  assumes "rune_width s = k" and "0 < k"
  shows "rune_width (take k s @ t) = k"
  using assms by (cases s) (auto split: if_splits list.splits)

lemma rune_bytes:
  assumes "rune_width (c # s) = k" and "0x80 \<le> ord c" and "x \<in> set (take k (c # s))"
  shows "0x80 \<le> ord x"
proof -
  have "second_ok c b \<Longrightarrow> 0x80 \<le> ord b" for b by (auto simp: second_ok_def within_def split: if_splits)
  with assms show ?thesis by (auto simp: within_def split: if_splits list.splits)
qed

text \<open>The bytes of a string after every invalid one has been replaced.\<close>

function sanitize :: "string \<Rightarrow> string" where
  "sanitize [] = []"
| "sanitize (c # s) =
     (let k = rune_width (c # s) in
      if k = 0 then replacement @ sanitize s else take k (c # s) @ sanitize (drop k (c # s)))"
  by pat_completeness auto
termination
  by (relation "measure length") (auto simp del: rune_width.simps)

function valid_utf8 :: "string \<Rightarrow> bool" where
  "valid_utf8 [] = True"
| "valid_utf8 (c # s) = (let k = rune_width (c # s) in if k = 0 then False else valid_utf8 (drop k (c # s)))"
  by pat_completeness auto
termination
  by (relation "measure length") (auto simp del: rune_width.simps)

declare rune_width.simps(2) [simp del] sanitize.simps(2) [simp del] valid_utf8.simps(2) [simp del]

lemma sanitize_valid: "valid_utf8 s \<Longrightarrow> sanitize s = s"
  by (induction s rule: sanitize.induct) (auto simp: sanitize.simps(2) valid_utf8.simps(2) Let_def)

lemma rune_width_ascii [simp]: "ord c < 0x80 \<Longrightarrow> rune_width (c # s) = 1"
  by (simp add: rune_width.simps(2))

lemma valid_ascii: "\<forall>c \<in> set s. ord c < 0x80 \<Longrightarrow> valid_utf8 s"
  by (induction s) (simp_all add: valid_utf8.simps(2))

lemma sanitize_ascii: "\<forall>c \<in> set s. ord c < 0x80 \<Longrightarrow> sanitize s = s"
  by (rule sanitize_valid) (rule valid_ascii)

section \<open>String literals\<close>

abbreviation dquote :: char where
  "dquote \<equiv> CHR 0x22"

abbreviation backslash :: char where
  "backslash \<equiv> CHR 0x5C"

text \<open>The named escapes, the letter first.\<close>

definition escapes :: "(char \<times> char) list" where
  "escapes =
     [(dquote, dquote), (backslash, backslash), (CHR ''b'', CHR 0x08), (CHR ''f'', CHR 0x0C),
      (CHR ''n'', CHR 0x0A), (CHR ''r'', CHR 0x0D), (CHR ''t'', CHR 0x09)]"

definition escape_of :: "char \<Rightarrow> char option" where
  "escape_of c = map_option fst (find (\<lambda>(l, x). x = c) escapes)"

definition escaped_by :: "char \<Rightarrow> char option" where
  "escaped_by l = (if l = CHR ''/'' then Some l else map_option snd (find (\<lambda>(l', x). l' = l) escapes))"

definition quote_ascii :: "char \<Rightarrow> string" where
  "quote_ascii c =
     (case escape_of c of
        Some l \<Rightarrow> [backslash, l]
      | None \<Rightarrow>
          if ord c < 0x20 \<or> c \<in> set ''<>&''
          then [backslash, CHR ''u'', CHR ''0'', CHR ''0'', digit_char (ord c div 16), digit_char (ord c mod 16)]
          else [c])"

definition u2028 :: string where "u2028 = [CHR 0xE2, CHR 0x80, CHR 0xA8]"
definition u2029 :: string where "u2029 = [CHR 0xE2, CHR 0x80, CHR 0xA9]"

definition quote_rune :: "string \<Rightarrow> string" where
  "quote_rune r =
     (if r = u2028 then backslash # ''u2028'' else if r = u2029 then backslash # ''u2029'' else r)"

text \<open>The body of the literal \<open>Marshal\<close> writes, without its quotes.\<close>

function quote_body :: "string \<Rightarrow> string" where
  "quote_body [] = []"
| "quote_body (c # s) =
     (if ord c < 0x80 then quote_ascii c @ quote_body s
      else let k = rune_width (c # s) in
        if k = 0 then (backslash # ''ufffd'') @ quote_body s
        else quote_rune (take k (c # s)) @ quote_body (drop k (c # s)))"
  by pat_completeness auto
termination
  by (relation "measure length") auto

declare quote_body.simps(2) [simp del]

definition hex_digit :: "char \<Rightarrow> bool" where
  "hex_digit c \<longleftrightarrow> digit_value c \<noteq> None"

text \<open>The raw text of a literal, from behind its opening quote to its closing one.\<close>

fun scan_string :: "string \<Rightarrow> (string \<times> string) option" where
  "scan_string [] = None"
| "scan_string (c # s) =
     (if c = dquote then Some ([], s)
      else if c = backslash then
        (case s of
           [] \<Rightarrow> None
         | e # s' \<Rightarrow>
             if escaped_by e \<noteq> None \<or> e = CHR ''u'' \<and> 4 \<le> length s' \<and> (\<forall>x \<in> set (take 4 s'). hex_digit x)
             then map_option (apfst (\<lambda>r. c # e # r)) (scan_string s') else None)
      else if ord c < 0x20 then None
      else map_option (apfst ((#) c)) (scan_string s))"

definition encode_rune :: "nat \<Rightarrow> string" where
  "encode_rune r =
     (if r < 0x80 then [char_of r]
      else if r < 0x800 then [char_of (0xC0 + r div 64), char_of (0x80 + r mod 64)]
      else if r < 0x10000
        then [char_of (0xE0 + r div 4096), char_of (0x80 + r div 64 mod 64), char_of (0x80 + r mod 64)]
      else [char_of (0xF0 + r div 262144), char_of (0x80 + r div 4096 mod 64),
        char_of (0x80 + r div 64 mod 64), char_of (0x80 + r mod 64)])"

definition surrogate :: "nat \<Rightarrow> bool" where
  "surrogate r \<longleftrightarrow> 0xD800 \<le> r \<and> r < 0xE000"

definition hex4 :: "string \<Rightarrow> nat option" where
  "hex4 s = (if length s < 4 then None else digits_value 16 0 (take 4 s))"

text \<open>The second half of a surrogate pair, when the text goes on with one.\<close>

definition pair_with :: "nat \<Rightarrow> string \<Rightarrow> nat option" where
  "pair_with r s =
     (case s of
        b # u # t \<Rightarrow>
          (if b = backslash \<and> u = CHR ''u'' then
             (case hex4 t of
                Some r' \<Rightarrow>
                  if r < 0xDC00 \<and> 0xDC00 \<le> r' \<and> r' < 0xE000
                  then Some (0x10000 + (r - 0xD800) * 1024 + (r' - 0xDC00)) else None
              | None \<Rightarrow> None)
           else None)
      | _ \<Rightarrow> None)"

function unquote :: "string \<Rightarrow> string" where
  "unquote [] = []"
| "unquote (c # s) =
     (if c = backslash then
        (case s of
           [] \<Rightarrow> []
         | e # t \<Rightarrow>
             (case escaped_by e of
                Some x \<Rightarrow> x # unquote t
              | None \<Rightarrow>
                  (case hex4 t of
                     None \<Rightarrow> unquote t
                   | Some r \<Rightarrow>
                       if \<not> surrogate r then encode_rune r @ unquote (drop 4 t)
                       else case pair_with r (drop 4 t) of
                         Some r' \<Rightarrow> encode_rune r' @ unquote (drop 10 t)
                       | None \<Rightarrow> replacement @ unquote (drop 4 t))))
      else let k = rune_width (c # s) in
        if k = 0 then replacement @ unquote s else take k (c # s) @ unquote (drop k (c # s)))"
  by pat_completeness auto
termination
  by (relation "measure length") auto

declare unquote.simps(2) [simp del]

section \<open>Literals read back\<close>

lemma find_SomeD: "find P xs = Some x \<Longrightarrow> x \<in> set xs \<and> P x"
  by (induction xs) (auto split: if_splits)

lemma escape_inverse:
  assumes "escape_of c = Some l"
  shows "escaped_by l = Some c"
proof -
  obtain x where f: "find (\<lambda>(l, x). x = c) escapes = Some (l, x)"
    using assms by (auto simp: escape_of_def)
  from find_SomeD [OF this] have "(l, c) \<in> set escapes" by auto
  moreover have "\<forall>(l, c) \<in> set escapes. escaped_by l = Some c" by code_simp
  ultimately show ?thesis by auto
qed

lemma escape_special: "escape_of dquote \<noteq> None" "escape_of backslash \<noteq> None"
  by code_simp+

lemma escaped_by_u [simp]: "escaped_by CHR ''u'' = None"
  by code_simp

lemma char_cases_numbers [simp]:
  "ord dquote = 34" "ord backslash = 92" "dquote \<noteq> backslash" "backslash \<noteq> dquote"
  by simp_all

lemma small_hex: "n < 128 \<Longrightarrow> hex4 (CHR ''0'' # CHR ''0'' # digit_char (n div 16) # digit_char (n mod 16) # s) = Some n"
proof -
  assume "n < 128"
  moreover have "digit_value CHR ''0'' = Some 0" by code_simp
  moreover have "n div 16 < 16" using \<open>n < 128\<close> by simp
  ultimately show ?thesis by (simp add: hex4_def)
qed

text \<open>Bytes a literal holds as they are.\<close>

definition plain :: "char \<Rightarrow> bool" where
  "plain c \<longleftrightarrow> c \<noteq> dquote \<and> c \<noteq> backslash \<and> 0x20 \<le> ord c"

lemma scan_plain:
  "\<forall>c \<in> set w. plain c \<Longrightarrow> scan_string (w @ s) = map_option (apfst ((@) w)) (scan_string s)"
proof (induction w)
  case Nil
  then show ?case by (cases "scan_string s") (auto simp: apfst_def map_prod_def)
next
  case (Cons c w)
  then show ?case
    by (cases "scan_string s") (auto simp: plain_def apfst_def map_prod_def split: prod.splits)
qed

lemma plain_hex: "hex_digit c \<Longrightarrow> plain c"
  by (auto simp: hex_digit_def digit_value_def plain_def split: if_splits)

lemma scan_u:
  assumes "length w = 4" and "\<forall>c \<in> set w. hex_digit c"
  shows "scan_string (backslash # CHR ''u'' # w @ s) =
    map_option (apfst ((@) (backslash # CHR ''u'' # w))) (scan_string s)"
  using assms scan_plain [of w s] plain_hex
  by (cases "scan_string s") (auto simp: apfst_def map_prod_def split: prod.splits)

lemma scan_quote_ascii:
  assumes "ord c < 0x80"
  shows "scan_string (quote_ascii c @ s) = map_option (apfst ((@) (quote_ascii c))) (scan_string s)"
proof (cases "escape_of c")
  case (Some l)
  then show ?thesis
    using escape_inverse [OF Some]
    by (cases "scan_string s") (auto simp: quote_ascii_def apfst_def map_prod_def split: prod.splits)
next
  case None
  then have ne: "c \<noteq> dquote" "c \<noteq> backslash" using escape_special by metis+
  have hx: "hex_digit (digit_char n)" if "n < 16" for n using that by (simp add: hex_digit_def)
  have h0: "hex_digit CHR ''0''" using hx [of 0] by simp
  show ?thesis
  proof (cases "ord c < 0x20 \<or> c \<in> set ''<>&''")
    case True
    then have "quote_ascii c =
        backslash # CHR ''u'' # [CHR ''0'', CHR ''0'', digit_char (ord c div 16), digit_char (ord c mod 16)]"
      using None by (simp add: quote_ascii_def)
    moreover have "ord c div 16 < 16" using assms by simp
    ultimately show ?thesis
      using scan_u [of "[CHR ''0'', CHR ''0'', digit_char (ord c div 16), digit_char (ord c mod 16)]" s] hx h0 by simp
  next
    case False
    then have "quote_ascii c = [c]" using None by (simp add: quote_ascii_def)
    then show ?thesis using False ne scan_plain [of "[c]" s] by (simp add: plain_def)
  qed
qed

lemma unquote_quote_ascii:
  assumes "ord c < 0x80"
  shows "unquote (quote_ascii c @ s) = c # unquote s"
proof (cases "escape_of c")
  case (Some l)
  then show ?thesis using escape_inverse [OF Some] by (simp add: quote_ascii_def unquote.simps(2))
next
  case None
  then have "c \<noteq> backslash" using escape_special by metis
  then show ?thesis
    using None assms small_hex [of "ord c" s]
    by (simp add: quote_ascii_def unquote.simps(2) surrogate_def encode_rune_def)
qed

lemma hex4_digits: "length w = 4 \<Longrightarrow> hex4 (w @ s) = digits_value 16 0 w"
  by (simp add: hex4_def)

text \<open>The three escapes of runes outside ASCII.\<close>

lemma rune_escapes:
  "unquote (backslash # ''u2028'' @ s) = u2028 @ unquote s"
  "unquote (backslash # ''u2029'' @ s) = u2029 @ unquote s"
  "unquote (backslash # ''ufffd'' @ s) = replacement @ unquote s"
proof -
  have v: "digits_value 16 0 ''2028'' = Some 0x2028" "digits_value 16 0 ''2029'' = Some 0x2029"
    "digits_value 16 0 ''fffd'' = Some 0xFFFD" by (simp_all add: digit_value_def)
  have e: "encode_rune 0x2028 = u2028" "encode_rune 0x2029 = u2029" "encode_rune 0xFFFD = replacement"
    by (simp_all add: encode_rune_def u2028_def u2029_def replacement_def char_of_eq_iff)
  show "unquote (backslash # ''u2028'' @ s) = u2028 @ unquote s"
    "unquote (backslash # ''u2029'' @ s) = u2029 @ unquote s"
    "unquote (backslash # ''ufffd'' @ s) = replacement @ unquote s"
    using hex4_digits [of "''2028''" s, unfolded v] hex4_digits [of "''2029''" s, unfolded v]
      hex4_digits [of "''fffd''" s, unfolded v] e
    by (simp_all add: unquote.simps(2) surrogate_def)
qed

lemma scan_escape:
  "w \<in> {''2028'', ''2029'', ''fffd''} \<Longrightarrow>
    scan_string (backslash # CHR ''u'' # w @ s) = map_option (apfst ((@) (backslash # CHR ''u'' # w))) (scan_string s)"
proof (rule scan_u)
  assume w: "w \<in> {''2028'', ''2029'', ''fffd''}"
  then show "length w = 4" by auto
  have "\<forall>w \<in> set [''2028'', ''2029'', ''fffd'']. \<forall>c \<in> set w. hex_digit c" by code_simp
  with w show "\<forall>c \<in> set w. hex_digit c" by auto
qed

text \<open>A rune outside ASCII, escaped or copied.\<close>

lemma quote_rune_read:
  assumes k: "rune_width (c # s) = k" "0 < k" and c: "0x80 \<le> ord c"
  shows "scan_string (quote_rune (take k (c # s)) @ t) =
      map_option (apfst ((@) (quote_rune (take k (c # s))))) (scan_string t)"
    and "unquote (quote_rune (take k (c # s)) @ t) = take k (c # s) @ unquote t"
proof -
  let ?r = "take k (c # s)"
  have r: "?r = c # take (k - 1) s" using k(2) by (cases k) auto
  have hi: "\<forall>x \<in> set ?r. 0x80 \<le> ord x" using rune_bytes [OF k(1) c] by blast
  have "plain x" if "0x80 \<le> ord x" for x using that by (auto simp: plain_def)
  with hi have pl: "\<forall>x \<in> set ?r. plain x" by blast
  show "scan_string (quote_rune ?r @ t) = map_option (apfst ((@) (quote_rune ?r))) (scan_string t)"
    using scan_plain [OF pl, of t] scan_escape [of "''2028''" t] scan_escape [of "''2029''" t]
    by (auto simp: quote_rune_def)
  have "unquote (?r @ t) = ?r @ unquote t"
  proof -
    have w: "rune_width (?r @ t) = k" using rune_alone [OF k] .
    have "c \<noteq> backslash" using c by auto
    then have "unquote (?r @ t) = take k (?r @ t) @ unquote (drop k (?r @ t))"
      using w k(2) unfolding r by (simp add: unquote.simps(2) Let_def)
    moreover have "length ?r = k" using rune_width_le [of "c # s"] k(1) by simp
    ultimately show ?thesis by simp
  qed
  then show "unquote (quote_rune ?r @ t) = ?r @ unquote t"
    using rune_escapes [of t] by (auto simp: quote_rune_def)
qed

theorem unquote_quote: "unquote (quote_body s) = sanitize s"
proof (induction s rule: quote_body.induct)
  case (2 c s)
  show ?case
  proof (cases "ord c < 0x80")
    case True
    with 2(1) show ?thesis
      by (simp add: quote_body.simps(2) unquote_quote_ascii sanitize.simps(2))
  next
    case False
    show ?thesis
    proof (cases "rune_width (c # s) = 0")
      case True
      with False 2(2) show ?thesis
        using rune_escapes(3) [of "quote_body s"]
        by (simp add: quote_body.simps(2) sanitize.simps(2))
    next
      case k: False
      with False 2(3) show ?thesis
        using quote_rune_read(2) [of c s "rune_width (c # s)"]
        by (simp add: quote_body.simps(2) sanitize.simps(2) Let_def)
    qed
  qed
qed simp

lemma scan_quote_append:
  "scan_string (quote_body s @ t) = map_option (apfst ((@) (quote_body s))) (scan_string t)"
proof (induction s rule: quote_body.induct)
  case 1
  then show ?case by (cases "scan_string t") (auto simp: apfst_def map_prod_def)
next
  case (2 c s)
  have comp: "map_option (apfst ((@) u)) (map_option (apfst ((@) v)) x) = map_option (apfst (\<lambda>a. u @ v @ a)) x"
    for u v and x :: "(string \<times> string) option"
    by (cases x) (auto simp: apfst_def map_prod_def split: prod.splits)
  show ?case
  proof (cases "ord c < 0x80")
    case True
    with 2(1) show ?thesis by (simp add: quote_body.simps(2) scan_quote_ascii comp)
  next
    case False
    show ?thesis
    proof (cases "rune_width (c # s) = 0")
      case True
      with False 2(2) show ?thesis
        using scan_escape [of "''fffd''" "quote_body s @ t"] comp [of "backslash # ''ufffd''" "quote_body s"]
        by (simp add: quote_body.simps(2))
    next
      case k: False
      with False 2(3) show ?thesis
        using quote_rune_read(1) [of c s "rune_width (c # s)" "quote_body (drop (rune_width (c # s)) (c # s)) @ t"] comp
        by (simp add: quote_body.simps(2) Let_def)
    qed
  qed
qed

lemma scan_quote: "scan_string (quote_body s @ dquote # t) = Some (quote_body s, t)"
  by (simp add: scan_quote_append)

lemma quote_ascii_printable: "ord c < 0x80 \<Longrightarrow> x \<in> set (quote_ascii c) \<Longrightarrow> 0x20 \<le> ord x"
proof -
  have e: "\<forall>(l, x) \<in> set escapes. 0x20 \<le> ord l" by (simp add: escapes_def)
  assume "ord c < 0x80" and x: "x \<in> set (quote_ascii c)"
  show ?thesis
  proof (cases "escape_of c")
    case (Some l)
    then obtain y where "find (\<lambda>(l, x). x = c) escapes = Some (l, y)" by (auto simp: escape_of_def)
    from find_SomeD [OF this] e have "0x20 \<le> ord l" by auto
    with x Some show ?thesis by (auto simp: quote_ascii_def)
  next
    case None
    have d: "0x20 \<le> ord (digit_char (ord c div 16))" "0x20 \<le> ord (digit_char (ord c mod 16))"
      using \<open>ord c < 0x80\<close> by (auto simp: digit_char_def)
    with x None show ?thesis by (auto simp: quote_ascii_def split: if_splits)
  qed
qed

lemma quote_body_printable: "x \<in> set (quote_body s) \<Longrightarrow> 0x20 \<le> ord x"
proof (induction s rule: quote_body.induct)
  case (2 c s)
  show ?case
  proof (cases "ord c < 0x80")
    case True
    with 2 show ?thesis using quote_ascii_printable [of c x] by (auto simp: quote_body.simps(2))
  next
    case False
    show ?thesis
    proof (cases "rune_width (c # s) = 0")
      case True
      with False 2 show ?thesis by (auto simp: quote_body.simps(2))
    next
      case k: False
      have "0x20 \<le> ord x" if "x \<in> set (quote_rune (take (rune_width (c # s)) (c # s)))"
        using that rune_bytes [of c s "rune_width (c # s)" x] False
        by (force simp: quote_rune_def split: if_splits)
      with False k 2(3,4) show ?thesis by (auto simp: quote_body.simps(2) Let_def)
    qed
  qed
qed simp

section \<open>Documents\<close>

text \<open>Strings and numbers keep the text they were written with.\<close>

datatype json =
    JNull
  | JBool bool
  | JNumber string
  | JString string
  | JArray "json list"
  | JObject "(string \<times> json) list"

definition skip_ws :: "string \<Rightarrow> string" where
  "skip_ws s = dropWhile (\<lambda>c. c \<in> {CHR 0x20, CHR 0x09, CHR 0x0A, CHR 0x0D}) s"

definition scan_digits :: "string \<Rightarrow> (string \<times> string) option" where
  "scan_digits s = (let w = takeWhile decimal s in if w = [] then None else Some (w, dropWhile decimal s))"

text \<open>A number literal: sign, integer part without leading zeros, fraction, exponent.\<close>

definition scan_number :: "string \<Rightarrow> (string \<times> string) option" where
  "scan_number s =
     do { let (sign, s) = (if has_prefix s ''-'' then (''-'', tl s) else ('''', s));
          (whole, s) \<leftarrow> (if has_prefix s ''0'' then Some (''0'', tl s) else scan_digits s);
          (frac, s) \<leftarrow> (if has_prefix s ''.'' then map_option (apfst ((#) CHR ''.'')) (scan_digits (tl s))
            else Some ('''', s));
          (expo, s) \<leftarrow> (if has_prefix s ''e'' \<or> has_prefix s ''E'' then
              (let (esign, s') = (if has_prefix (tl s) ''+'' \<or> has_prefix (tl s) ''-''
                 then (take 1 (tl s), tl (tl s)) else ('''', tl s))
               in map_option (apfst (\<lambda>w. take 1 s @ esign @ w)) (scan_digits s'))
            else Some ('''', s));
          Some (sign @ whole @ frac @ expo, s) }"

text \<open>
  The value at the start of a text and what follows it. Every call consumes a unit of fuel
  and, between two calls at the same depth, at least a byte, so a fuel of twice the text's
  length is enough.
\<close>

fun parse_value :: "nat \<Rightarrow> string \<Rightarrow> (json \<times> string) option"
  and parse_members :: "nat \<Rightarrow> string \<Rightarrow> ((string \<times> json) list \<times> string) option"
  and parse_elements :: "nat \<Rightarrow> string \<Rightarrow> (json list \<times> string) option"
where
  "parse_value 0 s = None"
| "parse_value (Suc n) s =
     (let s = skip_ws s in
      if has_prefix s [dquote] then map_option (apfst JString) (scan_string (tl s))
      else if has_prefix s ''{'' then
        (if has_prefix (skip_ws (tl s)) ''}'' then Some (JObject [], tl (skip_ws (tl s)))
         else map_option (apfst JObject) (parse_members n (tl s)))
      else if has_prefix s ''['' then
        (if has_prefix (skip_ws (tl s)) '']'' then Some (JArray [], tl (skip_ws (tl s)))
         else map_option (apfst JArray) (parse_elements n (tl s)))
      else if has_prefix s ''null'' then Some (JNull, drop 4 s)
      else if has_prefix s ''true'' then Some (JBool True, drop 4 s)
      else if has_prefix s ''false'' then Some (JBool False, drop 5 s)
      else map_option (apfst JNumber) (scan_number s))"
| "parse_members 0 s = None"
| "parse_members (Suc n) s =
     do { s \<leftarrow> expect dquote (skip_ws s); (k, s) \<leftarrow> scan_string s; s \<leftarrow> expect CHR '':'' (skip_ws s);
          (v, s) \<leftarrow> parse_value n s;
          let s = skip_ws s;
          if has_prefix s '','' then map_option (apfst ((#) (k, v))) (parse_members n (tl s))
          else if has_prefix s ''}'' then Some ([(k, v)], tl s) else None }"
| "parse_elements 0 s = None"
| "parse_elements (Suc n) s =
     do { (v, s) \<leftarrow> parse_value n s;
          let s = skip_ws s;
          if has_prefix s '','' then map_option (apfst ((#) v)) (parse_elements n (tl s))
          else if has_prefix s '']'' then Some ([v], tl s) else None }"

definition parse_document :: "string \<Rightarrow> json option" where
  "parse_document s =
     (case parse_value (2 * length s + 2) s of
        Some (v, r) \<Rightarrow> if skip_ws r = [] then Some v else None
      | None \<Rightarrow> None)"

end
