(* ===== verification/Observe.thy ===== *)
theory Observe
  imports Address GoJson "HOL-Library.AList" "HOL-Library.Char_ord" "HOL-Library.List_Lexorder"
begin

text \<open>
  The observation record of the main binary (\<open>observe.go\<close>): the kinds, the event in JSON,
  the observer that appends to its own file of the shared directory, and the reader that
  collects one address's events from every observer's file.
\<close>

section \<open>Events\<close>

datatype kind = QUIC | Connect | Session | Refused | Declined | Closed

text \<open>The constants \<open>kindQUIC\<close> to \<open>kindClosed\<close>.\<close>

fun kind_text :: "kind \<Rightarrow> string" where
  "kind_text QUIC = ''quic''"
| "kind_text Connect = ''connect''"
| "kind_text Session = ''session''"
| "kind_text Refused = ''refused''"
| "kind_text Declined = ''declined''"
| "kind_text Closed = ''closed''"

record observation =
  At :: instant
  Addr :: string
  Port :: int
  Kind :: string
  Detail :: string

record observedEvent =
  event_at :: instant
  event_port :: int
  event_kind :: string
  event_detail :: string

text \<open>\<open>json.Marshal\<close> of an observation: the struct's fields in order, the detail left out when empty.\<close>

definition json_string :: "string \<Rightarrow> string" where
  "json_string s = dquote # quote_body s @ [dquote]"

definition json_key :: "string \<Rightarrow> string" where
  "json_key k = dquote # k @ [dquote, CHR '':'']"

definition marshal_observation :: "observation \<Rightarrow> string option" where
  "marshal_observation e =
     (case time_text (At e) of
        None \<Rightarrow> None
      | Some t \<Rightarrow> Some
          (''{'' @ json_key ''t'' @ dquote # t @ [dquote] @ '','' @
           json_key ''a'' @ json_string (Addr e) @ '','' @
           json_key ''port'' @ itoa (Port e) @ '','' @
           json_key ''kind'' @ json_string (Kind e) @
           (if Detail e = '''' then '''' else '','' @ json_key ''detail'' @ json_string (Detail e)) @ ''}''))"

text \<open>
  \<open>json.Unmarshal\<close> into an observation: members in order, names compared without regard to
  case, unknown names skipped, \<open>null\<close> without effect, any mismatch an error.
\<close>

definition zero_observation :: observation where
  "zero_observation = \<lparr>At = - 62135596800 * second, Addr = '''', Port = 0, Kind = '''', Detail = ''''\<rparr>"

definition text_value :: "json \<Rightarrow> string option" where
  "text_value v = (case v of JString raw \<Rightarrow> Some (unquote raw) | _ \<Rightarrow> None)"

text \<open>
  Names are compared up to the case of their letters; the Kelvin sign is a third \<open>k\<close>.
\<close>

fun fold_name :: "string \<Rightarrow> string" where
  "fold_name (a # b # c # s) =
     (if a = CHR 0xE2 \<and> b = CHR 0x84 \<and> c = CHR 0xAA then CHR ''k'' # fold_name s
      else to_lower a # fold_name (b # c # s))"
| "fold_name (a # s) = to_lower a # fold_name s"
| "fold_name [] = []"

definition set_member :: "string \<Rightarrow> json \<Rightarrow> observation \<Rightarrow> observation option" where
  "set_member raw v e =
     (let k = fold_name (unquote raw) in
      if v = JNull then Some e
      else if k = ''t'' then
        (case v of JString t \<Rightarrow> map_option (\<lambda>t. e\<lparr>At := t\<rparr>) (parse_time t) | _ \<Rightarrow> None)
      else if k = ''a'' then map_option (\<lambda>s. e\<lparr>Addr := s\<rparr>) (text_value v)
      else if k = ''port'' then
        (case v of JNumber w \<Rightarrow> map_option (\<lambda>i. e\<lparr>Port := i\<rparr>) (atoi w) | _ \<Rightarrow> None)
      else if k = ''kind'' then map_option (\<lambda>s. e\<lparr>Kind := s\<rparr>) (text_value v)
      else if k = ''detail'' then map_option (\<lambda>s. e\<lparr>Detail := s\<rparr>) (text_value v)
      else Some e)"

fun set_members :: "(string \<times> json) list \<Rightarrow> observation \<Rightarrow> observation option" where
  "set_members [] e = Some e"
| "set_members ((k, v) # ms) e = Option.bind (set_member k v e) (set_members ms)"

definition unmarshal_observation :: "string \<Rightarrow> observation option" where
  "unmarshal_observation s =
     (case parse_document s of
        Some JNull \<Rightarrow> Some zero_observation
      | Some (JObject ms) \<Rightarrow> set_members ms zero_observation
      | _ \<Rightarrow> None)"

section \<open>The shared directory and its observers\<close>

text \<open>
  The directory the listeners share: its entries by name. A name stands for the path
  \<open>filepath.Join\<close> builds from the directory.
\<close>

type_synonym dir = "(string \<times> bytes) list"

record observer =
  obs_name :: string
  obs_size :: int

definition observationCeiling :: int where
  "observationCeiling = 1 * 2 ^ 20"

text \<open>How the system answers one call of \<open>record\<close>: \<open>os.Remove\<close>, \<open>os.OpenFile\<close>, \<open>file.Write\<close>.\<close>

record io =
  removes :: bool
  opens :: bool
  write_fault :: "nat option"

definition io_ok :: io where
  "io_ok = \<lparr>removes = True, opens = True, write_fault = None\<rparr>"

definition observer_file :: "string \<Rightarrow> string" where
  "observer_file label = ''observed-'' @ label @ ''.jsonl''"

definition remove_file :: "bool \<Rightarrow> string \<Rightarrow> dir \<Rightarrow> dir" where
  "remove_file ok name d = (if ok then AList.delete name d else d)"

definition file_content :: "dir \<Rightarrow> string \<Rightarrow> bytes" where
  "file_content d name = (case map_of d name of None \<Rightarrow> '''' | Some b \<Rightarrow> b)"

definition append_file :: "string \<Rightarrow> bytes \<Rightarrow> dir \<Rightarrow> dir" where
  "append_file name b d = AList.update name (file_content d name @ b) d"

definition newObserver :: "bool \<Rightarrow> string \<Rightarrow> dir \<Rightarrow> observer \<times> dir" where
  "newObserver removed label d =
     (let path = observer_file label in (\<lparr>obs_name = path, obs_size = 0\<rparr>, remove_file removed path d))"

text \<open>The method \<open>record\<close>; no observer is Go's \<open>nil\<close> receiver.\<close>

definition record_event ::
  "instant \<Rightarrow> io \<Rightarrow> string \<Rightarrow> int \<Rightarrow> string \<Rightarrow> string \<Rightarrow> observer option \<times> dir \<Rightarrow> observer option \<times> dir" where
  "record_event now sys address port kind detail s =
     (case s of
        (None, d) \<Rightarrow> (None, d)
      | (Some ob, d) \<Rightarrow>
          (case marshal_observation \<lparr>At = now, Addr = address, Port = port, Kind = kind, Detail = detail\<rparr> of
             None \<Rightarrow> (Some ob, d)
           | Some text \<Rightarrow>
               let line = text @ [CHR 0x0A];
                   (ob, d) = (if obs_size ob + int (length line) > observationCeiling
                     then (ob\<lparr>obs_size := 0\<rparr>, remove_file (removes sys) (obs_name ob) d)
                     else (ob, d))
               in if \<not> opens sys then (Some ob, d)
                  else case write_fault sys of
                    Some k \<Rightarrow> (Some ob, append_file (obs_name ob) (take k line) d)
                  | None \<Rightarrow> (Some (ob\<lparr>obs_size := obs_size ob + int (length line)\<rparr>),
                      append_file (obs_name ob) line d)))"

section \<open>Reading\<close>

text \<open>\<open>filepath.Glob\<close> for \<open>observed-*.jsonl\<close> in the directory: the matching names, sorted.\<close>

definition observed_name :: "string \<Rightarrow> bool" where
  "observed_name s \<longleftrightarrow> has_prefix s ''observed-'' \<and> has_suffix (drop 9 s) ''.jsonl'' \<and> CHR ''/'' \<notin> set s"

definition glob_observed :: "dir \<Rightarrow> string list" where
  "glob_observed d = sort (filter observed_name (map fst d))"

text \<open>The events of one file for an address, from the cutoff on, in the file's order.\<close>

definition file_events :: "string \<Rightarrow> instant \<Rightarrow> bytes \<Rightarrow> observation list" where
  "file_events address cutoff content =
     filter (\<lambda>e. \<not> (Addr e \<noteq> address \<or> At e < cutoff))
       (List.map_filter (\<lambda>line. if line = '''' then None else unmarshal_observation line)
         (strings_split (CHR 0x0A) content))"

definition event_of :: "observation \<Rightarrow> observedEvent" where
  "event_of e = \<lparr>event_at = At e, event_port = Port e, event_kind = Kind e, event_detail = Detail e\<rparr>"

text \<open>
  \<open>readObservations\<close>, \<open>readable\<close> telling the files \<open>os.ReadFile\<close> can read. \<open>sort.Slice\<close>
  sorts by time without a promise on equal times; the model keeps their order, and what is
  proved of the result holds for any order of equal times.
\<close>

definition readObservations :: "instant \<Rightarrow> (string \<Rightarrow> bool) \<Rightarrow> dir \<Rightarrow> string \<Rightarrow> duration \<Rightarrow> observedEvent list" where
  "readObservations now readable d address window =
     (let paths = glob_observed d; cutoff = now - window;
          found = concat (map (\<lambda>path. file_events address cutoff (file_content d path)) (filter readable paths))
      in map event_of (sort_key At found))"

text \<open>\<open>closeReason\<close>: the text of the context's cause, when it has one.\<close>

definition closeReason :: "string option \<Rightarrow> string" where
  "closeReason cause = (case cause of Some why \<Rightarrow> why | None \<Rightarrow> '''')"

end
