(* ===== verification/Observe_Facts.thy ===== *)
theory Observe_Facts
  imports Observe
begin

text \<open>
  The observation record read back: every event that \<open>Marshal\<close> writes is what
  \<open>Unmarshal\<close> returns, an observer's file holds exactly the lines since its last restart, and
  the reader returns exactly the asked address's events of the window, by time.
\<close>

section \<open>Parsing what was printed\<close>

lemma skip_ws_stop [simp]: "c \<notin> {CHR 0x20, CHR 0x09, CHR 0x0A, CHR 0x0D} \<Longrightarrow> skip_ws (c # s) = c # s"
  by (simp add: skip_ws_def)

lemma parse_literal:
  assumes "scan_string (w @ dquote # r) = Some (w, r)"
  shows "parse_value (Suc n) (dquote # w @ dquote # r) = Some (JString w, r)"
  using assms by simp

lemma parse_json_string: "parse_value (Suc n) (json_string s @ r) = Some (JString (quote_body s), r)"
  using parse_literal [OF scan_quote, of n s r] by (simp add: json_string_def)

lemma scan_plain_literal: "\<forall>c \<in> set w. plain c \<Longrightarrow> scan_string (w @ dquote # r) = Some (w, r)"
  using scan_plain [of w "dquote # r"] by simp

lemma member_more:
  assumes "\<forall>c \<in> set k. plain c" and "parse_value n (v @ CHR '','' # r) = Some (x, CHR '','' # r)"
  shows "parse_members (Suc n) (json_key k @ v @ CHR '','' # r) = map_option (apfst ((#) (k, x))) (parse_members n r)"
  using assms scan_plain_literal [OF assms(1)] by (simp add: json_key_def)

lemma member_last:
  assumes "\<forall>c \<in> set k. plain c" and "parse_value n (v @ CHR ''}'' # r) = Some (x, CHR ''}'' # r)"
  shows "parse_members (Suc n) (json_key k @ v @ CHR ''}'' # r) = Some ([(k, x)], r)"
  using assms scan_plain_literal [OF assms(1)] by (simp add: json_key_def)

lemma scan_number_nat:
  assumes "\<not> decimal c" "c \<noteq> CHR ''.''" "c \<noteq> CHR ''e''" "c \<noteq> CHR ''E''"
  shows "scan_number (dec n @ c # r) = Some (dec n, c # r)"
    and "scan_number (CHR ''-'' # dec n @ c # r) = Some (CHR ''-'' # dec n, c # r)"
proof -
  obtain d w where dw: "dec n = d # w" by (cases "dec n") auto
  have dd: "\<forall>x \<in> set (dec n). decimal x" using dec_decimal by blast
  then have d: "decimal d" "\<forall>x \<in> set w. decimal x" by (simp_all add: dw)
  then have nd: "d \<noteq> CHR ''-''" by (auto simp: decimal_def)
  have tw: "takeWhile decimal (w @ c # r) = w" "dropWhile decimal (w @ c # r) = c # r"
    using d assms(1) by (auto intro: takeWhile_append_stop dropWhile_append_stop)
  have z: "w = ''''" if "d = CHR ''0''"
  proof (cases "n = 0")
    case True
    then show ?thesis using dw num_text_zero [of 10] by simp
  next
    case False
    then show ?thesis using num_text_leading [of 10 n] dw that by simp
  qed
  show "scan_number (dec n @ c # r) = Some (dec n, c # r)"
    using dw nd d tw z assms by (cases "d = CHR ''0''") (auto simp: scan_number_def scan_digits_def)
  show "scan_number (CHR ''-'' # dec n @ c # r) = Some (CHR ''-'' # dec n, c # r)"
    using dw nd d tw z assms by (cases "d = CHR ''0''") (auto simp: scan_number_def scan_digits_def)
qed

lemma parse_itoa: "parse_value (Suc n) (itoa i @ CHR '','' # r) = Some (JNumber (itoa i), CHR '','' # r)"
proof -
  obtain d w where dw: "dec (nat i) = d # w" by (cases "dec (nat i)") auto
  then have "decimal d" using dec_decimal [of d "nat i"] by simp
  then have d: "d \<noteq> dquote" "d \<noteq> CHR ''{''" "d \<noteq> CHR ''[''" "d \<noteq> CHR ''n''" "d \<noteq> CHR ''t''" "d \<noteq> CHR ''f''"
    "d \<notin> {CHR 0x20, CHR 0x09, CHR 0x0A, CHR 0x0D}" by (auto simp: decimal_def)
  have c: "\<not> decimal CHR '',''" by (simp add: decimal_def)
  show ?thesis
  proof (cases "i < 0")
    case True
    then show ?thesis using scan_number_nat(2) [OF c, of "nat (- i)" r] by (simp add: itoa_def)
  next
    case False
    then have i: "itoa i = d # w" using dw by (simp add: itoa_def)
    have "scan_number (d # w @ CHR '','' # r) = Some (d # w, CHR '','' # r)"
      using scan_number_nat(1) [OF c, of "nat i" r] dw by simp
    then show ?thesis unfolding i using d by simp
  qed
qed

lemma decimal_plain: "decimal c \<Longrightarrow> plain c"
  by (auto simp: decimal_def plain_def)

lemma pad_plain: "\<forall>c \<in> set (pad k n). plain c"
  using pad_decimal decimal_plain by blast

lemma frac_plain: "\<forall>c \<in> set (frac_text n). plain c"
proof -
  have "set (trim_right (pad 9 n) ''0'') \<subseteq> set (pad 9 n)"
    unfolding trim_right_def using set_dropWhileD by fastforce
  then show ?thesis using pad_plain by (auto simp: frac_text_def plain_def)
qed

lemma time_text_plain:
  assumes "time_text t = Some s"
  shows "\<forall>c \<in> set s. plain c"
proof -
  have p: "plain CHR ''-''" "plain CHR ''T''" "plain CHR '':''" "plain CHR ''Z''" by (simp_all add: plain_def)
  show ?thesis
    using assms p pad_plain frac_plain
    by (auto simp: time_text_def Let_def ball_Un split: if_splits prod.splits)
qed

lemma field_keys_plain:
  "\<forall>c \<in> set ''t''. plain c" "\<forall>c \<in> set ''a''. plain c" "\<forall>c \<in> set ''port''. plain c"
  "\<forall>c \<in> set ''kind''. plain c" "\<forall>c \<in> set ''detail''. plain c"
  by (simp_all add: plain_def)

lemma unquote_field_keys:
  "fold_name (unquote ''t'') = ''t''" "fold_name (unquote ''a'') = ''a''"
  "fold_name (unquote ''port'') = ''port''" "fold_name (unquote ''kind'') = ''kind''"
  "fold_name (unquote ''detail'') = ''detail''"
  by code_simp+

text \<open>The members of a marshalled observation, as the parser returns them.\<close>

definition observation_members :: "observation \<Rightarrow> string \<Rightarrow> (string \<times> json) list" where
  "observation_members e t =
     [(''t'', JString t), (''a'', JString (quote_body (Addr e))), (''port'', JNumber (itoa (Port e))),
      (''kind'', JString (quote_body (Kind e)))] @
     (if Detail e = '''' then [] else [(''detail'', JString (quote_body (Detail e)))])"

lemma parse_marshalled:
  assumes "marshal_observation e = Some s"
  shows "\<exists>t. time_text (At e) = Some t \<and> parse_document s = Some (JObject (observation_members e t))"
proof -
  obtain t where t: "time_text (At e) = Some t"
    using assms by (auto simp: marshal_observation_def split: option.splits)
  define kind_rest where "kind_rest = (if Detail e = '''' then '''' else '','' @ json_key ''detail'' @ json_string (Detail e)) @ ''}''"
  have s: "s = CHR ''{'' # json_key ''t'' @ (dquote # t @ [dquote]) @ CHR '','' # json_key ''a'' @ json_string (Addr e) @
      CHR '','' # json_key ''port'' @ itoa (Port e) @ CHR '','' # json_key ''kind'' @ json_string (Kind e) @ kind_rest"
    using assms t by (simp add: marshal_observation_def kind_rest_def)
  define n where "n = 2 * length s - 5"
  have "length s \<ge> 6" unfolding s by (simp add: json_key_def)
  then have n: "2 * length s + 2 = Suc (Suc (Suc (Suc (Suc (Suc (Suc n))))))" by (simp add: n_def)
  have last: "parse_members (Suc (Suc (Suc n))) (json_key ''kind'' @ json_string (Kind e) @ kind_rest) =
      Some ((''kind'', JString (quote_body (Kind e))) #
        (if Detail e = '''' then [] else [(''detail'', JString (quote_body (Detail e)))]), '''')"
  proof (cases "Detail e = ''''")
    case True
    then show ?thesis
      using member_last [OF field_keys_plain(4) parse_json_string, of "Suc n" "Kind e" "''''"]
      by (simp add: kind_rest_def)
  next
    case False
    then show ?thesis
      using member_more [OF field_keys_plain(4) parse_json_string, of "Suc n" "Kind e" "json_key ''detail'' @ json_string (Detail e) @ ''}''"]
        member_last [OF field_keys_plain(5) parse_json_string, of n "Detail e" "''''"]
      by (simp add: kind_rest_def)
  qed
  define ms where "ms = (''kind'', JString (quote_body (Kind e))) #
    (if Detail e = '''' then [] else [(''detail'', JString (quote_body (Detail e)))])"
  note last' = last [folded ms_def]
  have p3: "parse_members (Suc (Suc (Suc (Suc n)))) (json_key ''port'' @ itoa (Port e) @ CHR '','' #
      json_key ''kind'' @ json_string (Kind e) @ kind_rest) = Some ((''port'', JNumber (itoa (Port e))) # ms, '''')"
    by (simp only: member_more [OF field_keys_plain(3) parse_itoa] last') simp
  have p2: "parse_members (Suc (Suc (Suc (Suc (Suc n))))) (json_key ''a'' @ json_string (Addr e) @ CHR '','' #
      json_key ''port'' @ itoa (Port e) @ CHR '','' # json_key ''kind'' @ json_string (Kind e) @ kind_rest) =
      Some ((''a'', JString (quote_body (Addr e))) # (''port'', JNumber (itoa (Port e))) # ms, '''')"
    by (simp only: member_more [OF field_keys_plain(2) parse_json_string] p3) simp
  have tv: "parse_value (Suc m) ((dquote # t @ [dquote]) @ CHR '','' # r) = Some (JString t, CHR '','' # r)" for m r
    using parse_literal [OF scan_plain_literal [OF time_text_plain [OF t]], of m "CHR '','' # r"] by simp
  have p1: "parse_members (Suc (Suc (Suc (Suc (Suc (Suc n)))))) (tl s) =
      Some ((''t'', JString t) # (''a'', JString (quote_body (Addr e))) # (''port'', JNumber (itoa (Port e))) # ms, '''')"
    unfolding s list.sel by (simp only: member_more [OF field_keys_plain(1) tv] p2) simp
  obtain u where u: "s = CHR ''{'' # dquote # u" unfolding s by (simp add: json_key_def)
  have obj: "parse_value (Suc m) (CHR ''{'' # dquote # u) = map_option (apfst JObject) (parse_members m (dquote # u))" for m
    by (simp del: parse_members.simps)
  have "parse_members (Suc (Suc (Suc (Suc (Suc (Suc n)))))) (dquote # u) = Some (observation_members e t, '''')"
    using p1 unfolding u observation_members_def ms_def by simp
  then have "parse_value (2 * length s + 2) s = Some (JObject (observation_members e t), '''')"
    unfolding n unfolding u obj by simp
  with t show ?thesis by (simp add: parse_document_def skip_ws_def)
qed

definition readable_form :: "observation \<Rightarrow> observation" where
  "readable_form e = e\<lparr>Addr := sanitize (Addr e), Kind := sanitize (Kind e), Detail := sanitize (Detail e)\<rparr>"

lemma unmarshal_marshalled:
  assumes "marshal_observation e = Some s" and "- (2 ^ 63) \<le> Port e" and "Port e < 2 ^ 63"
  shows "unmarshal_observation s = Some (readable_form e)"
proof -
  obtain t where t: "time_text (At e) = Some t"
    and d: "parse_document s = Some (JObject (observation_members e t))"
    using parse_marshalled [OF assms(1)] by blast
  show ?thesis
    using d parse_time_text [OF t] atoi_itoa [OF assms(2,3)]
    by (cases e) (simp add: unmarshal_observation_def observation_members_def set_member_def unquote_field_keys
        text_value_def unquote_quote zero_observation_def readable_form_def)
qed

section \<open>Lines\<close>

abbreviation newline :: char where
  "newline \<equiv> CHR 0x0A"

lemma printable_no_newline: "\<forall>c \<in> set s. 0x20 \<le> ord c \<Longrightarrow> newline \<notin> set s"
  by auto

lemma itoa_printable: "c \<in> set (itoa i) \<Longrightarrow> 0x20 \<le> ord c"
  using itoa_chars [of c i] by (auto simp: decimal_def)

lemma marshalled_line:
  assumes "marshal_observation e = Some s"
  shows "newline \<notin> set s \<and> s \<noteq> ''''"
proof -
  obtain t where t: "time_text (At e) = Some t"
    using assms by (auto simp: marshal_observation_def split: option.splits)
  have n: "newline \<notin> set t" "newline \<notin> set (quote_body x)" "newline \<notin> set (itoa i)" for x i
    using time_text_plain [OF t] quote_body_printable itoa_printable by (fastforce simp: plain_def)+
  show ?thesis
    using assms t n by (auto simp: marshal_observation_def json_key_def json_string_def split: if_splits)
qed

definition line_of :: "observation \<Rightarrow> bytes" where
  "line_of e = (case marshal_observation e of Some s \<Rightarrow> s @ [newline] | None \<Rightarrow> '''')"

definition writable :: "observation \<Rightarrow> bool" where
  "writable e \<longleftrightarrow> marshal_observation e \<noteq> None \<and> - (2 ^ 63) \<le> Port e \<and> Port e < 2 ^ 63"

text \<open>A file of whole lines gives its events back, in order.\<close>

lemma file_events_lines:
  assumes "\<forall>e \<in> set es. writable e"
  shows "file_events address cutoff (concat (map line_of es)) =
    filter (\<lambda>e. Addr e = address \<and> cutoff \<le> At e) (map readable_form es)"
  using assms
proof (induction es)
  case Nil
  show ?case by (simp add: file_events_def List.map_filter_def)
next
  case (Cons e es)
  obtain s where s: "marshal_observation e = Some s" using Cons.prems by (auto simp: writable_def)
  have u: "unmarshal_observation s = Some (readable_form e)"
    using unmarshal_marshalled [OF s] Cons.prems by (simp add: writable_def)
  have "strings_split newline (concat (map line_of (e # es))) =
      s # strings_split newline (concat (map line_of es))"
    using split_step marshalled_line [OF s] by (simp add: line_of_def s)
  then show ?case
    using Cons marshalled_line [OF s] u by (auto simp: file_events_def List.map_filter_def)
qed

section \<open>An observer's file\<close>

lemma file_content_update [simp]:
  "file_content (AList.update n b d) m = (if m = n then b else file_content d m)"
  by (simp add: file_content_def update_conv)

lemma file_content_append [simp]:
  "file_content (append_file n b d) m = file_content d m @ (if m = n then b else '''')"
  by (simp add: append_file_def)

lemma file_content_remove [simp]:
  "file_content (remove_file True n d) m = (if m = n then '''' else file_content d m)"
  by (simp add: file_content_def remove_file_def delete_conv)

definition file_names :: "dir \<Rightarrow> string set" where
  "file_names d = fst ` set d"

lemma file_names_simps [simp]:
  "file_names [] = {}"
  "file_names (append_file n b d) = insert n (file_names d)"
  "file_names (remove_file ok n d) = file_names d - (if ok then {n} else {})"
  using arg_cong [OF delete_keys [of n d], of set]
  by (simp_all add: file_names_def append_file_def dom_update remove_file_def)

lemma names_distinct:
  "distinct (map fst d) \<Longrightarrow> distinct (map fst (append_file n b d))"
  "distinct (map fst d) \<Longrightarrow> distinct (map fst (remove_file ok n d))"
  by (simp_all add: append_file_def remove_file_def distinct_update distinct_delete)

text \<open>The calls of \<open>record\<close> on one observer, in the order its mutex admits them.\<close>

record call =
  call_at :: instant
  call_io :: io
  call_address :: string
  call_port :: int
  call_kind :: string
  call_detail :: string

definition observation_of :: "call \<Rightarrow> observation" where
  "observation_of c = \<lparr>At = call_at c, Addr = call_address c, Port = call_port c,
     Kind = call_kind c, Detail = call_detail c\<rparr>"

definition record_call :: "call \<Rightarrow> observer option \<times> dir \<Rightarrow> observer option \<times> dir" where
  "record_call c = record_event (call_at c) (call_io c) (call_address c) (call_port c) (call_kind c) (call_detail c)"

text \<open>The state of a healthy observer: its file is the lines of the events it kept.\<close>

definition holds :: "observation list \<Rightarrow> observer \<times> dir \<Rightarrow> bool" where
  "holds kept s \<longleftrightarrow>
     file_content (snd s) (obs_name (fst s)) = concat (map line_of kept) \<and>
     obs_size (fst s) = int (length (file_content (snd s) (obs_name (fst s)))) \<and>
     (obs_size (fst s) \<le> observationCeiling \<or> length kept = 1)"

lemma record_call_holds:
  assumes "holds kept (ob, d)" and "call_io c = io_ok"
  shows "\<exists>ob' d' kept'. record_call c (Some ob, d) = (Some ob', d') \<and> holds kept' (ob', d') \<and>
    obs_name ob' = obs_name ob \<and> (\<forall>n. n \<noteq> obs_name ob \<longrightarrow> file_content d' n = file_content d n) \<and>
    (kept' = (if marshal_observation (observation_of c) = None then kept else kept @ [observation_of c]) \<or>
     kept' = [observation_of c] \<and> marshal_observation (observation_of c) \<noteq> None \<and>
       observationCeiling < obs_size ob + int (length (line_of (observation_of c))))"
proof (cases "marshal_observation (observation_of c)")
  case None
  then have "record_call c (Some ob, d) = (Some ob, d)"
    by (simp add: record_call_def record_event_def observation_of_def)
  with assms(1) None show ?thesis by auto
next
  case (Some js)
  let ?line = "js @ [newline]"
  have line: "line_of (observation_of c) = ?line" using Some by (simp add: line_of_def)
  show ?thesis
  proof (cases "obs_size ob + int (length ?line) > observationCeiling")
    case True
    let ?ob = "ob\<lparr>obs_size := int (length ?line)\<rparr>"
    let ?d = "append_file (obs_name ob) ?line (remove_file True (obs_name ob) d)"
    have "record_call c (Some ob, d) = (Some ?ob, ?d)"
      using True Some assms(2) by (simp add: record_call_def record_event_def observation_of_def io_ok_def)
    moreover have "holds [observation_of c] (?ob, ?d)" using line by (simp add: holds_def)
    ultimately show ?thesis using Some True line by auto
  next
    case False
    let ?ob = "ob\<lparr>obs_size := obs_size ob + int (length ?line)\<rparr>"
    let ?d = "append_file (obs_name ob) ?line d"
    have "record_call c (Some ob, d) = (Some ?ob, ?d)"
      using False Some assms(2) by (simp add: record_call_def record_event_def observation_of_def io_ok_def)
    moreover have "holds (kept @ [observation_of c]) (?ob, ?d)"
      using False assms(1) line by (simp add: holds_def)
    ultimately show ?thesis using Some by auto
  qed
qed

end
