(* ===== verification/Observe_Props.thy ===== *)
theory Observe_Props
  imports Observe_Facts "HOL-Library.Sublist"
begin

text \<open>
  The properties of the observation record: what a sequence of \<open>record\<close> calls leaves in the
  observer's file, and what \<open>readObservations\<close> returns from it and from any directory.
\<close>

section \<open>Runs of one observer\<close>

definition record_calls :: "call list \<Rightarrow> observer option \<times> dir \<Rightarrow> observer option \<times> dir" where
  "record_calls cs s = fold record_call cs s"

definition marshalled :: "call list \<Rightarrow> observation list" where
  "marshalled cs = filter (\<lambda>e. marshal_observation e \<noteq> None) (map observation_of cs)"

definition volume :: "observation list \<Rightarrow> int" where
  "volume es = int (length (concat (map line_of es)))"

lemma volume_simps [simp]: "volume [] = 0" "volume (e # es) = int (length (line_of e)) + volume es"
  "volume (es @ es') = volume es + volume es'" "0 \<le> volume es"
  by (simp_all add: volume_def)

lemma record_calls_hold:
  assumes "holds kept (ob, d)" and "\<forall>c \<in> set cs. call_io c = io_ok"
  shows "\<exists>ob' d' kept'. record_calls cs (Some ob, d) = (Some ob', d') \<and> holds kept' (ob', d') \<and>
    obs_name ob' = obs_name ob \<and> (\<forall>n. n \<noteq> obs_name ob \<longrightarrow> file_content d' n = file_content d n) \<and>
    suffix kept' (kept @ marshalled cs) \<and> (marshalled cs \<noteq> [] \<longrightarrow> kept' \<noteq> []) \<and> (kept \<noteq> [] \<longrightarrow> kept' \<noteq> []) \<and>
    (volume (kept @ marshalled cs) \<le> observationCeiling \<longrightarrow> kept' = kept @ marshalled cs)"
  using assms
proof (induction cs arbitrary: ob d kept)
  case Nil
  then show ?case by (auto simp: record_calls_def marshalled_def)
next
  case (Cons c cs)
  let ?e = "observation_of c"
  obtain ob\<^sub>1 d\<^sub>1 kept\<^sub>1 where one: "record_call c (Some ob, d) = (Some ob\<^sub>1, d\<^sub>1)" "holds kept\<^sub>1 (ob\<^sub>1, d\<^sub>1)"
      "obs_name ob\<^sub>1 = obs_name ob" "\<forall>n. n \<noteq> obs_name ob \<longrightarrow> file_content d\<^sub>1 n = file_content d n"
      "kept\<^sub>1 = (if marshal_observation ?e = None then kept else kept @ [?e]) \<or>
       kept\<^sub>1 = [?e] \<and> marshal_observation ?e \<noteq> None \<and> observationCeiling < obs_size ob + int (length (line_of ?e))"
    using record_call_holds [OF Cons.prems(1), of c] Cons.prems(2) by auto
  obtain ob' d' kept' where rest: "record_calls cs (Some ob\<^sub>1, d\<^sub>1) = (Some ob', d')" "holds kept' (ob', d')"
      "obs_name ob' = obs_name ob\<^sub>1" "\<forall>n. n \<noteq> obs_name ob\<^sub>1 \<longrightarrow> file_content d' n = file_content d\<^sub>1 n"
      "suffix kept' (kept\<^sub>1 @ marshalled cs)" "marshalled cs \<noteq> [] \<longrightarrow> kept' \<noteq> []" "kept\<^sub>1 \<noteq> [] \<longrightarrow> kept' \<noteq> []"
      "volume (kept\<^sub>1 @ marshalled cs) \<le> observationCeiling \<longrightarrow> kept' = kept\<^sub>1 @ marshalled cs"
    using Cons.IH [OF one(2)] Cons.prems(2) by auto
  have size: "obs_size ob = volume kept" using Cons.prems(1) by (simp add: holds_def volume_def)
  have m: "marshalled (c # cs) = (if marshal_observation ?e = None then [] else [?e]) @ marshalled cs"
    by (simp add: marshalled_def)
  have "suffix kept' (kept @ marshalled (c # cs))"
    using rest(5) one(5) unfolding m by (auto intro: suffix_order.trans simp: suffix_def)
  moreover have "kept\<^sub>1 \<noteq> []" if "kept \<noteq> [] \<or> marshal_observation ?e \<noteq> None" using that one(5) by (auto split: if_splits)
  moreover have "kept\<^sub>1 = kept @ (if marshal_observation ?e = None then [] else [?e])"
    if "volume (kept @ marshalled (c # cs)) \<le> observationCeiling"
    using one(5) that volume_simps(4) [of "marshalled cs"] unfolding m size by (auto simp del: volume_simps(4))
  ultimately show ?case
    using one(1,3,4) rest unfolding m record_calls_def by (auto simp: record_calls_def)
qed

text \<open>Whatever the system answers, a call leaves the directory alone but for the observer's file.\<close>

lemma record_call_name: "map_option obs_name (fst (record_call c (Some ob, d))) = Some (obs_name ob)"
  by (simp add: record_call_def record_event_def Let_def split: option.splits)

lemma record_call_dir:
  "\<exists>d\<^sub>1 b. (d\<^sub>1 = d \<or> d\<^sub>1 = remove_file (removes (call_io c)) (obs_name ob) d) \<and>
    (snd (record_call c (Some ob, d)) = d\<^sub>1 \<or> snd (record_call c (Some ob, d)) = append_file (obs_name ob) b d\<^sub>1)"
proof (cases "marshal_observation (observation_of c)")
  case None
  then show ?thesis by (auto simp: record_call_def record_event_def observation_of_def)
next
  case (Some js)
  define full where "full \<longleftrightarrow> obs_size ob + int (length (js @ [newline])) > observationCeiling"
  define d\<^sub>1 where "d\<^sub>1 = (if full then remove_file (removes (call_io c)) (obs_name ob) d else d)"
  define b where "b = (case write_fault (call_io c) of Some k \<Rightarrow> take k (js @ [newline]) | None \<Rightarrow> js @ [newline])"
  have "snd (record_call c (Some ob, d)) = (if \<not> opens (call_io c) then d\<^sub>1 else append_file (obs_name ob) b d\<^sub>1)"
    using Some unfolding record_call_def record_event_def observation_of_def full_def d\<^sub>1_def b_def
    by (simp add: Let_def split: option.split)
  moreover have "d\<^sub>1 = d \<or> d\<^sub>1 = remove_file (removes (call_io c)) (obs_name ob) d" by (simp add: d\<^sub>1_def)
  ultimately show ?thesis by (intro exI [of _ d\<^sub>1] exI [of _ b]) simp
qed

lemma names_record_call:
  assumes "record_call c (Some ob, d) = (Some ob', d')"
  shows "obs_name ob' = obs_name ob \<and> file_names d' \<subseteq> insert (obs_name ob) (file_names d) \<and>
    (distinct (map fst d) \<longrightarrow> distinct (map fst d'))"
  using record_call_dir [of d c ob] record_call_name [of c ob d] assms
  by (auto simp: names_distinct split: if_splits)

lemma names_record_calls:
  assumes "record_calls cs (Some ob, d) = (Some ob', d')"
  shows "obs_name ob' = obs_name ob \<and> file_names d' \<subseteq> insert (obs_name ob) (file_names d) \<and>
    (distinct (map fst d) \<longrightarrow> distinct (map fst d'))"
  using assms
proof (induction cs arbitrary: ob d)
  case (Cons c cs)
  obtain ob\<^sub>1 d\<^sub>1 where one: "record_call c (Some ob, d) = (Some ob\<^sub>1, d\<^sub>1)"
    using record_call_name [of c ob d] by (cases "record_call c (Some ob, d)") auto
  with Cons.prems have "record_calls cs (Some ob\<^sub>1, d\<^sub>1) = (Some ob', d')" by (simp add: record_calls_def)
  from Cons.IH [OF this] names_record_call [OF one] show ?case by auto
qed (auto simp: record_calls_def)

lemma newObserver_holds:
  assumes "newObserver True label d = (ob, d\<^sub>0)"
  shows "holds [] (ob, d\<^sub>0) \<and> obs_name ob = observer_file label \<and>
    file_names d\<^sub>0 \<subseteq> file_names d \<and> (distinct (map fst d) \<longrightarrow> distinct (map fst d\<^sub>0)) \<and>
    (\<forall>n. n \<noteq> observer_file label \<longrightarrow> file_content d\<^sub>0 n = file_content d n)"
  using assms by (auto simp: newObserver_def Let_def holds_def observationCeiling_def names_distinct)

lemma observer_file_spec:
  assumes "newObserver True label d = (ob, d\<^sub>0)" and "\<forall>c \<in> set cs. call_io c = io_ok"
  shows "\<exists>ob' d' kept. record_calls cs (Some ob, d\<^sub>0) = (Some ob', d') \<and>
    file_content d' (observer_file label) = concat (map line_of kept) \<and>
    obs_size ob' = int (length (file_content d' (observer_file label))) \<and>
    (obs_size ob' \<le> observationCeiling \<or> length kept = 1) \<and>
    suffix kept (marshalled cs) \<and> (marshalled cs \<noteq> [] \<longrightarrow> kept \<noteq> []) \<and>
    (volume (marshalled cs) \<le> observationCeiling \<longrightarrow> kept = marshalled cs) \<and>
    (\<forall>n. n \<noteq> observer_file label \<longrightarrow> file_content d' n = file_content d n)"
proof -
  note new = newObserver_holds [OF assms(1)]
  then have "holds [] (ob, d\<^sub>0)" by blast
  from record_calls_hold [OF this assms(2)] obtain ob' d' kept where
    "record_calls cs (Some ob, d\<^sub>0) = (Some ob', d')" "holds kept (ob', d')" "obs_name ob' = obs_name ob"
    "\<forall>n. n \<noteq> obs_name ob \<longrightarrow> file_content d' n = file_content d\<^sub>0 n" "suffix kept (marshalled cs)"
    "marshalled cs \<noteq> [] \<longrightarrow> kept \<noteq> []" "volume (marshalled cs) \<le> observationCeiling \<longrightarrow> kept = marshalled cs"
    by auto
  with new show ?thesis by (intro exI [of _ ob'] exI [of _ d'] exI [of _ kept]) (auto simp add: holds_def)
qed

section \<open>Properties\<close>

text \<open>
  C34: After any calls of \<open>record\<close> on a new observer, with a file system that answers, its file
  is exactly the lines of the last events recorded, the last one always among them, and of all
  events while they fit in the ceiling; the size it tracks is the file's length, which exceeds
  the ceiling only when the file is a single line; no other file changes.
\<close>

theorem observer_file_lines:
  assumes "newObserver True label d = (ob, d\<^sub>0)" and "\<forall>c \<in> set cs. call_io c = io_ok"
  shows "\<exists>ob' d' kept. record_calls cs (Some ob, d\<^sub>0) = (Some ob', d') \<and>
    file_content d' (observer_file label) = concat (map line_of kept) \<and>
    obs_size ob' = int (length (file_content d' (observer_file label))) \<and>
    (obs_size ob' \<le> observationCeiling \<or> length kept = 1) \<and>
    suffix kept (marshalled cs) \<and> (marshalled cs \<noteq> [] \<longrightarrow> kept \<noteq> []) \<and>
    (volume (marshalled cs) \<le> observationCeiling \<longrightarrow> kept = marshalled cs) \<and>
    (\<forall>n. n \<noteq> observer_file label \<longrightarrow> file_content d' n = file_content d n)"
  using assms by (rule observer_file_spec)

theorem observer_file_lines_witness:
  "\<exists>ob' d'. record_calls
      [\<lparr>call_at = 0, call_io = io_ok, call_address = ''10.0.0.1'', call_port = 4433, call_kind = ''quic'', call_detail = ''''\<rparr>]
      (Some \<lparr>obs_name = observer_file ''lab'', obs_size = 0\<rparr>, []) = (Some ob', d') \<and>
    file_content d' (observer_file ''lab'') \<noteq> ''''"
proof -
  let ?c = "\<lparr>call_at = 0, call_io = io_ok, call_address = ''10.0.0.1'', call_port = 4433, call_kind = ''quic'', call_detail = ''''\<rparr>"
  have n: "newObserver True ''lab'' [] = (\<lparr>obs_name = observer_file ''lab'', obs_size = 0\<rparr>, [])"
    by (simp add: newObserver_def remove_file_def)
  have t: "time_text 0 \<noteq> None" by (rule time_text_total) (simp_all add: unix_day_def)
  then have "marshal_observation (observation_of ?c) \<noteq> None"
    by (auto simp: marshal_observation_def observation_of_def)
  then have m: "marshalled [?c] = [observation_of ?c]" "line_of (observation_of ?c) \<noteq> ''''"
    by (auto simp: marshalled_def line_of_def)
  from observer_file_lines [OF n, of "[?c]"] show ?thesis
    unfolding m(1) using m(2) by (auto simp: suffix_def Cons_eq_append_conv)
qed

lemma set_map_filter: "x \<in> set (List.map_filter f xs) \<longleftrightarrow> (\<exists>y \<in> set xs. f y = Some x)"
  by (induction xs) (auto simp: map_filter_simps split: option.splits)

lemma sorted_events: "sorted (map event_at (map event_of (sort_key At xs)))"
proof -
  have "map event_at (map event_of ys) = map At ys" for ys by (simp add: event_of_def)
  then show ?thesis by (simp only: sorted_sort_key)
qed

text \<open>
  C33: The page is handed, oldest first, exactly the events of the asked address within the
  window that some line of a readable observer file holds: nothing of another address, nothing
  older, and nothing of a file that is not an observer's.
\<close>

theorem readObservations_exact:
  "sorted (map event_at (readObservations now readable d address window)) \<and>
    (ev \<in> set (readObservations now readable d address window) \<longleftrightarrow>
      (\<exists>name line e. name \<in> file_names d \<and> observed_name name \<and> readable name \<and>
        line \<in> set (strings_split newline (file_content d name)) \<and> line \<noteq> '''' \<and>
        unmarshal_observation line = Some e \<and> Addr e = address \<and> now - window \<le> At e \<and> ev = event_of e))"
proof -
  have e: "e \<in> set (file_events address (now - window) content) \<longleftrightarrow>
      (\<exists>line \<in> set (strings_split newline content). line \<noteq> '''' \<and> unmarshal_observation line = Some e) \<and>
      Addr e = address \<and> now - window \<le> At e" for e content
    by (auto simp: file_events_def set_map_filter split: if_splits)
  have n: "set (filter readable (glob_observed d)) = {n \<in> file_names d. observed_name n \<and> readable n}"
    by (auto simp: glob_observed_def file_names_def)
  have "ev \<in> set (readObservations now readable d address window) \<longleftrightarrow>
      (\<exists>name \<in> {n \<in> file_names d. observed_name n \<and> readable n}.
        \<exists>e \<in> set (file_events address (now - window) (file_content d name)). ev = event_of e)"
    unfolding n [symmetric] by (auto simp: readObservations_def Let_def)
  moreover have "sorted (map event_at (readObservations now readable d address window))"
    unfolding readObservations_def Let_def by (rule sorted_events)
  ultimately show ?thesis unfolding Bex_def mem_Collect_eq e by blast
qed

lemma filter_single:
  assumes "distinct xs" and "\<forall>x \<in> set xs. P x \<longrightarrow> x = n" and "P n"
  shows "filter P xs = (if n \<in> set xs then [n] else [])"
proof -
  have "filter P xs = filter (\<lambda>x. x = n) xs" using assms(2,3) by (intro filter_cong) auto
  moreover have "filter (\<lambda>x. x = n) xs = (if n \<in> set xs then [n] else [])"
    using assms(1) by (induction xs) (auto simp: filter_False)
  ultimately show ?thesis by simp
qed

lemma observer_file_observed: "CHR ''/'' \<notin> set label \<Longrightarrow> observed_name (observer_file label)"
proof -
  assume l: "CHR ''/'' \<notin> set label"
  have p: "has_prefix (observer_file label) ''observed-''"
    unfolding observer_file_def by (rule has_prefix_append)
  have "drop 9 (observer_file label) = label @ ''.jsonl''" by (simp add: observer_file_def)
  then have s: "has_suffix (drop 9 (observer_file label)) ''.jsonl''" by (metis has_suffix_append)
  have "CHR ''/'' \<notin> set (observer_file label)" using l unfolding observer_file_def set_append by simp
  with p s show ?thesis unfolding observed_name_def by blast
qed

lemma read_single_file:
  assumes "distinct (map fst d)" and "\<forall>n \<in> file_names d. observed_name n \<longrightarrow> n = name"
    and "observed_name name" and "readable name"
  shows "readObservations now readable d address window =
    map event_of (sort_key At (file_events address (now - window) (file_content d name)))"
proof -
  have "filter observed_name (map fst d) = (if name \<in> file_names d then [name] else [])"
    using filter_single [OF assms(1), of observed_name name] assms(2,3) by (auto simp: file_names_def)
  moreover have "file_content d name = ''''" if "name \<notin> file_names d"
  proof -
    have "map_of d name = None" using that by (simp add: file_names_def map_of_eq_None_iff)
    then show ?thesis by (simp add: file_content_def)
  qed
  moreover have "file_events address (now - window) '''' = []" by (simp add: file_events_def map_filter_def)
  ultimately show ?thesis
    using assms(4) by (simp add: readObservations_def glob_observed_def Let_def)
qed

definition faithful_text :: "call \<Rightarrow> bool" where
  "faithful_text c \<longleftrightarrow> valid_utf8 (call_address c) \<and> valid_utf8 (call_kind c) \<and> valid_utf8 (call_detail c) \<and>
     - (2 ^ 63) \<le> call_port c \<and> call_port c < 2 ^ 63"

text \<open>
  What is recorded is read back: after any calls of \<open>record\<close> on a new observer whose
  lines fit in the ceiling, the page reads exactly the recorded events of the asked address
  within the window, each once, oldest first, their addresses, ports, kinds, details and times
  unchanged by the way through JSON and the file.
\<close>

lemma recorded_read_back:
  assumes "newObserver True label d = (ob, d\<^sub>0)" and "\<forall>c \<in> set cs. call_io c = io_ok"
    and "record_calls cs (Some ob, d\<^sub>0) = (ob', d')" and "volume (marshalled cs) \<le> observationCeiling"
    and "\<forall>c \<in> set cs. faithful_text c" and "distinct (map fst d)"
    and "\<forall>n \<in> file_names d. observed_name n \<longrightarrow> n = observer_file label" and "CHR ''/'' \<notin> set label"
    and "readable (observer_file label)"
  shows "mset (readObservations now readable d' address window) =
      image_mset event_of {#e \<in># mset (marshalled cs). Addr e = address \<and> now - window \<le> At e#} \<and>
    sorted (map event_at (readObservations now readable d' address window))"
proof -
  note new = newObserver_holds [OF assms(1)]
  obtain ob\<^sub>1 where ob\<^sub>1: "ob' = Some ob\<^sub>1" and
    content: "file_content d' (observer_file label) = concat (map line_of (marshalled cs))"
    using observer_file_spec [OF assms(1,2)] assms(3,4) by auto
  have names: "file_names d' \<subseteq> insert (observer_file label) (file_names d)" "distinct (map fst d')"
    using names_record_calls [of cs ob d\<^sub>0 ob\<^sub>1 d'] assms(3,6) new ob\<^sub>1 by auto
  have w: "writable e \<and> readable_form e = e" if "e \<in> set (marshalled cs)" for e
    using that assms(5)
    by (auto simp: marshalled_def writable_def observation_of_def faithful_text_def readable_form_def sanitize_valid)
  have "file_events address (now - window) (file_content d' (observer_file label)) =
      filter (\<lambda>e. Addr e = address \<and> now - window \<le> At e) (marshalled cs)"
    unfolding content using w by (subst file_events_lines) (simp_all cong: map_cong)
  then have r: "readObservations now readable d' address window =
      map event_of (sort_key At (filter (\<lambda>e. Addr e = address \<and> now - window \<le> At e) (marshalled cs)))"
    by (subst read_single_file [OF names(2) _ observer_file_observed [OF assms(8)], of readable])
      (use names(1) assms(7,9) in auto)
  show ?thesis unfolding r by (intro conjI sorted_events) simp
qed

text \<open>Two events of two addresses, recorded at the epoch.\<close>

definition sample_call :: "string \<Rightarrow> call" where
  "sample_call a = \<lparr>call_at = 0, call_io = io_ok, call_address = a, call_port = 443, call_kind = ''quic'', call_detail = ''''\<rparr>"

definition sample_calls :: "call list" where
  "sample_calls = [sample_call ''10.0.0.1'', sample_call ''10.0.0.2'']"

lemma sample_calls_recorded:
  "\<forall>c \<in> set sample_calls. call_io c = io_ok" "marshalled sample_calls = map observation_of sample_calls"
  "volume (marshalled sample_calls) \<le> observationCeiling" "\<forall>c \<in> set sample_calls. faithful_text c"
  "newObserver True ''lab'' [] = (\<lparr>obs_name = observer_file ''lab'', obs_size = 0\<rparr>, [])"
  "\<exists>ob d. record_calls sample_calls (Some \<lparr>obs_name = observer_file ''lab'', obs_size = 0\<rparr>, []) = (Some ob, d)"
proof -
  have q: "length (quote_body ''10.0.0.1'') = 8" "length (quote_body ''10.0.0.2'') = 8" "length (quote_body ''quic'') = 4"
    "length (itoa 443) = 3" by code_simp+
  show n: "newObserver True ''lab'' [] = (\<lparr>obs_name = observer_file ''lab'', obs_size = 0\<rparr>, [])"
    by (simp add: newObserver_def remove_file_def)
  show "marshalled sample_calls = map observation_of sample_calls" "volume (marshalled sample_calls) \<le> observationCeiling"
    by (simp_all add: marshalled_def marshal_observation_def observation_of_def sample_calls_def sample_call_def epoch_text line_of_def
        json_key_def json_string_def q observationCeiling_def)
  show "\<forall>c \<in> set sample_calls. faithful_text c" "\<forall>c \<in> set sample_calls. call_io c = io_ok"
    by (simp_all add: faithful_text_def sample_calls_def sample_call_def valid_ascii)
  then show "\<exists>ob d. record_calls sample_calls (Some \<lparr>obs_name = observer_file ''lab'', obs_size = 0\<rparr>, []) = (Some ob, d)"
    using observer_file_spec [OF n] by fastforce
qed

text \<open>
  C39: What \<open>record\<close> does on every answer of the system, below the ceiling and at it. A nil
  observer and an event that does not marshal change nothing. Otherwise, at the ceiling the old
  file goes if it can be removed and the counting starts again in either case, so that a removal
  that fails lets the file outgrow the ceiling; then a file that does not open gets nothing, a
  write that fails may leave the start of the line, which is not counted, and one that does not
  fail leaves the whole line and counts it. No other file changes.
\<close>

theorem record_errors:
  assumes "marshal_observation (observation_of c) = Some js" and "marshal_observation (observation_of c') = None"
    and "over \<longleftrightarrow> observationCeiling < obs_size ob + int (length js) + 1"
  shows "record_call c (None, d) = (None, d) \<and> record_call c' (Some ob, d) = (Some ob, d) \<and>
    (\<exists>ob' d'. record_call (c\<lparr>call_io := \<lparr>removes = r, opens = op, write_fault = f\<rparr>\<rparr>) (Some ob, d) = (Some ob', d') \<and>
      file_content d' (obs_name ob) = (if over \<and> r then '''' else file_content d (obs_name ob)) @
        (if \<not> op then '''' else case f of None \<Rightarrow> js @ [newline] | Some k \<Rightarrow> take k (js @ [newline])) \<and>
      (obs_name ob \<in> file_names d' \<longleftrightarrow> op \<or> obs_name ob \<in> file_names d \<and> \<not> (over \<and> r)) \<and>
      obs_name ob' = obs_name ob \<and>
      obs_size ob' = (if over then 0 else obs_size ob) + (if op \<and> f = None then int (length js) + 1 else 0) \<and>
      (\<forall>n. n \<noteq> obs_name ob \<longrightarrow> file_content d' n = file_content d n))"
proof -
  let ?io = "\<lparr>removes = r, opens = op, write_fault = f\<rparr>" and ?line = "js @ [newline]"
  let ?ob = "if over then ob\<lparr>obs_size := 0\<rparr> else ob" and ?d = "if over then remove_file r (obs_name ob) d else d"
  let ?ob' = "if op \<and> f = None then ?ob\<lparr>obs_size := obs_size ?ob + int (length ?line)\<rparr> else ?ob"
  let ?d' = "if op then append_file (obs_name ob) (case f of None \<Rightarrow> ?line | Some k \<Rightarrow> take k ?line) ?d else ?d"
  have o: "over \<longleftrightarrow> observationCeiling < obs_size ob + int (length ?line)" unfolding assms(3) by simp linarith
  have rest: "record_call c (None, d) = (None, d)" "record_call c' (Some ob, d) = (Some ob, d)"
    using assms(2) by (simp_all add: record_call_def record_event_def observation_of_def)
  have call: "record_call (c\<lparr>call_io := ?io\<rparr>) (Some ob, d) = (Some ?ob', ?d')"
    using assms(1) o by (cases f; cases op; cases over) (simp_all add: record_call_def record_event_def observation_of_def)
  have keep: "remove_file False n d = d" for n by (simp add: remove_file_def)
  have "file_content ?d' (obs_name ob) = (if over \<and> r then '''' else file_content d (obs_name ob)) @
        (if \<not> op then '''' else case f of None \<Rightarrow> ?line | Some k \<Rightarrow> take k ?line)"
    and "\<forall>n. n \<noteq> obs_name ob \<longrightarrow> file_content ?d' n = file_content d n"
    by (cases r; simp add: keep)+
  moreover have "obs_name ob \<in> file_names ?d' \<longleftrightarrow> op \<or> obs_name ob \<in> file_names d \<and> \<not> (over \<and> r)" by auto
  moreover have "obs_name ?ob' = obs_name ob" by simp
  moreover have "obs_size ?ob' = (if over then 0 else obs_size ob) + (if op \<and> f = None then int (length js) + 1 else 0)" by simp
  ultimately show ?thesis using rest call by blast
qed

lemma year_10000: "time_text ((3652425 - unix_day) * day) = None"
proof -
  obtain y m k where c: "civil 3652425 = (y, m, k)" by (metis prod.collapse)
  have "year_of 3652425 = 10000" by (intro year_of_unique) (simp_all add: days_before_def)
  then have "y = 10000" using civil_bounds [OF c] by simp
  with c show ?thesis by (simp add: time_text_def Let_def unix_day_def)
qed

theorem record_errors_witness:
  "\<exists>c ob' d'. record_call (c\<lparr>call_io := \<lparr>removes = False, opens = True, write_fault = Some 3\<rparr>\<rparr>)
      (Some \<lparr>obs_name = ''f'', obs_size = observationCeiling\<rparr>, [(''f'', ''ab'')]) = (Some ob', d') \<and>
    file_content d' ''f'' = ''ab{'' @ [dquote] @ ''t'' \<and> obs_size ob' = 0"
proof -
  define c where "c t = \<lparr>call_at = t, call_io = io_ok, call_address = ''::1'', call_port = 443,
    call_kind = ''quic'', call_detail = ''''\<rparr>" for t
  have q: "length (quote_body ''::1'') = 3" "length (quote_body ''quic'') = 4" "length (itoa 443) = 3" by code_simp+
  obtain js where js: "marshal_observation (observation_of (c 0)) = Some js" "take 3 js = CHR ''{'' # dquote # ''t''"
    by (simp add: marshal_observation_def observation_of_def c_def epoch_text json_key_def json_string_def q)
  have l: "3 \<le> length js" using arg_cong [OF js(2), of length] by simp
  have none: "marshal_observation (observation_of (c ((3652425 - unix_day) * day))) = None"
    by (simp only: marshal_observation_def observation_of_def c_def observation.simps call.simps year_10000 option.simps)
  let ?ob = "\<lparr>obs_name = ''f'', obs_size = observationCeiling\<rparr>"
  have "True \<longleftrightarrow> observationCeiling < obs_size ?ob + int (length js) + 1" by simp
  from record_errors [OF js(1) none this, of "[(''f'', ''ab'')]" False True "Some 3"] l js(2)
  show ?thesis by (intro exI [of _ "c 0"]) (auto simp: file_content_def)
qed

text \<open>
  The ceiling does not bound the file: an event whose line alone is longer than the ceiling
  is written whole, after the file has been dropped.
\<close>

lemma ceiling_overrun:
  assumes "call_io c = io_ok" and "marshal_observation (observation_of c) = Some js"
    and "observationCeiling \<le> int (length js)"
  shows "\<exists>ob' d'. record_call c (Some ob, d) = (Some ob', d') \<and>
    observationCeiling < int (length (file_content d' (obs_name ob)))"
  using assms
  by (cases "obs_size ob + int (length (js @ [newline])) > observationCeiling")
    (simp_all add: record_call_def record_event_def observation_of_def io_ok_def)

end
