(* ===== verification/Legacy_Observe.thy ===== *)
theory Legacy_Observe
  imports Observe_Props
begin

text \<open>
  The writer half of the observation record in the legacy binary (\<open>legacy/observe.go\<close>) with
  its own copies of the address functions (\<open>legacy/main.go\<close>). The two binaries share only
  the directory: what ties them is that every copy computes what the main binary's does.
\<close>

section \<open>The copies\<close>

fun legacy_kind_text :: "kind \<Rightarrow> string" where
  "legacy_kind_text QUIC = ''quic''"
| "legacy_kind_text Connect = ''connect''"
| "legacy_kind_text Session = ''session''"
| "legacy_kind_text Refused = ''refused''"
| "legacy_kind_text Declined = ''declined''"
| "legacy_kind_text Closed = ''closed''"

record legacy_observation =
  legacy_At :: instant
  legacy_Addr :: string
  legacy_Port :: int
  legacy_Kind :: string
  legacy_Detail :: string

definition legacy_marshal :: "legacy_observation \<Rightarrow> string option" where
  "legacy_marshal e =
     (case time_text (legacy_At e) of
        None \<Rightarrow> None
      | Some t \<Rightarrow> Some
          (''{'' @ json_key ''t'' @ dquote # t @ [dquote] @ '','' @
           json_key ''a'' @ json_string (legacy_Addr e) @ '','' @
           json_key ''port'' @ itoa (legacy_Port e) @ '','' @
           json_key ''kind'' @ json_string (legacy_Kind e) @
           (if legacy_Detail e = '''' then ''''
            else '','' @ json_key ''detail'' @ json_string (legacy_Detail e)) @ ''}''))"

record legacy_observer =
  legacy_path :: string
  legacy_size :: int

definition legacy_observationCeiling :: int where
  "legacy_observationCeiling = 1 * 2 ^ 20"

definition legacy_newObserver :: "bool \<Rightarrow> string \<Rightarrow> dir \<Rightarrow> legacy_observer \<times> dir" where
  "legacy_newObserver removed label d =
     (let path = observer_file label in (\<lparr>legacy_path = path, legacy_size = 0\<rparr>, remove_file removed path d))"

definition legacy_record_event ::
  "instant \<Rightarrow> io \<Rightarrow> string \<Rightarrow> int \<Rightarrow> string \<Rightarrow> string \<Rightarrow> legacy_observer option \<times> dir \<Rightarrow> legacy_observer option \<times> dir" where
  "legacy_record_event now sys address port kind detail s =
     (case s of
        (None, d) \<Rightarrow> (None, d)
      | (Some ob, d) \<Rightarrow>
          (case legacy_marshal \<lparr>legacy_At = now, legacy_Addr = address, legacy_Port = port,
                  legacy_Kind = kind, legacy_Detail = detail\<rparr> of
             None \<Rightarrow> (Some ob, d)
           | Some js \<Rightarrow>
               let line = js @ [CHR 0x0A];
                   (ob, d) = (if legacy_size ob + int (length line) > legacy_observationCeiling
                     then (ob\<lparr>legacy_size := 0\<rparr>, remove_file (removes sys) (legacy_path ob) d)
                     else (ob, d))
               in if \<not> opens sys then (Some ob, d)
                  else case write_fault sys of
                    Some k \<Rightarrow> (Some ob, append_file (legacy_path ob) (take k line) d)
                  | None \<Rightarrow> (Some (ob\<lparr>legacy_size := legacy_size ob + int (length line)\<rparr>),
                      append_file (legacy_path ob) line d)))"

definition legacy_closeReason :: "string option \<Rightarrow> string" where
  "legacy_closeReason cause = (case cause of Some why \<Rightarrow> why | None \<Rightarrow> '''')"

definition legacy_normalizeAddress :: "string \<Rightarrow> string" where
  "legacy_normalizeAddress address =
     (case parse_ip address of
        None \<Rightarrow> address
      | Some ip \<Rightarrow>
          if is_loopback ip then ''127.0.0.1''
          else (case to4 ip of Some v4 \<Rightarrow> ip_string v4 | None \<Rightarrow> ip_string ip))"

definition legacy_addressOf :: "string \<Rightarrow> string" where
  "legacy_addressOf remote =
     (case split_host_port remote of
        Inl _ \<Rightarrow> legacy_normalizeAddress remote
      | Inr (host, _) \<Rightarrow> legacy_normalizeAddress host)"

section \<open>Agreement\<close>

definition observer_of :: "legacy_observer \<Rightarrow> observer" where
  "observer_of ob = \<lparr>obs_name = legacy_path ob, obs_size = legacy_size ob\<rparr>"

lemma observer_of_sel [simp]:
  "obs_name (observer_of ob) = legacy_path ob" "obs_size (observer_of ob) = legacy_size ob"
  by (simp_all add: observer_of_def)

lemma legacy_normalizeAddress_agrees: "legacy_normalizeAddress a = normalizeAddress a"
  by (simp add: legacy_normalizeAddress_def normalizeAddress_def)

lemma legacy_addressOf_agrees: "legacy_addressOf r = addressOf r"
  by (cases "split_host_port r") (auto simp: legacy_addressOf_def addressOf_def legacy_normalizeAddress_agrees)

lemma legacy_kind_agrees: "legacy_kind_text k = kind_text k"
  by (cases k) simp_all

lemma legacy_marshal_agrees:
  "legacy_marshal \<lparr>legacy_At = t, legacy_Addr = a, legacy_Port = p, legacy_Kind = k, legacy_Detail = x\<rparr> =
    marshal_observation \<lparr>At = t, Addr = a, Port = p, Kind = k, Detail = x\<rparr>"
  by (cases "time_text t") (simp_all add: legacy_marshal_def marshal_observation_def)

lemma legacy_newObserver_agrees:
  "map_prod observer_of id (legacy_newObserver removed label d) = newObserver removed label d"
  by (simp add: legacy_newObserver_def newObserver_def observer_of_def Let_def)

lemma legacy_record_agrees:
  "map_prod (map_option observer_of) id (legacy_record_event t sys a p k x (ob, d)) =
    record_event t sys a p k x (map_option observer_of ob, d)"
  by (cases ob)
    (simp_all add: legacy_record_event_def record_event_def legacy_marshal_agrees Let_def observer_of_def
      legacy_observationCeiling_def observationCeiling_def split: option.split)

text \<open>
  C35: The legacy binary agrees with the main one on everything the page's lookup relies on: it
  keys a client the same way, names the kinds the same way, starts a file the same way, and
  its \<open>record\<close> does to the shared directory what the main binary's would.
\<close>

theorem legacy_observer_refines:
  "legacy_addressOf r = addressOf r \<and> legacy_normalizeAddress r = normalizeAddress r \<and>
    legacy_kind_text kind = kind_text kind \<and> legacy_closeReason cause = closeReason cause \<and>
    map_prod observer_of id (legacy_newObserver removed label d) = newObserver removed label d \<and>
    map_prod (map_option observer_of) id (legacy_record_event t sys a p k x (ob, d)) =
      record_event t sys a p k x (map_option observer_of ob, d)"
  by (simp add: legacy_addressOf_agrees legacy_normalizeAddress_agrees legacy_kind_agrees
      legacy_newObserver_agrees legacy_record_agrees legacy_closeReason_def closeReason_def)

end
