(* ===== verification/Server.thy ===== *)
theory Server
  imports Echo_Facts Legacy_Budgets Legacy_Observe
begin

text \<open>
  A listener at work: connections come and go, the \<open>/echo\<close> handler admits, upgrades or turns
  away requests, and the sessions it starts echo next to each other over one budget guard. The
  relation is stated once over the guard's operations and instantiated with those of each
  binary; the locale \<open>echo_server\<close> holds what follows from the guard's contract.
\<close>

section \<open>State\<close>

text \<open>The guard of a binary as its handlers use it; \<open>'k\<close> tells kinds of listener apart.\<close>

record ('k, 'g, 'l) guard_ops =
  grab_op :: "clock \<Rightarrow> 'k \<Rightarrow> string \<Rightarrow> 'g \<Rightarrow> (bool \<times> string) \<times> 'g"
  give_op :: "string \<Rightarrow> 'g \<Rightarrow> 'g"
  charge_op :: "clock \<Rightarrow> int \<Rightarrow> 'g \<Rightarrow> (bool \<times> 'l) \<times> 'g"
  budget_of :: "'k \<Rightarrow> int"
  lifetime_of :: "'k \<Rightarrow> duration"

text \<open>A call of \<open>watch.record\<close>: address, port, kind and detail.\<close>

type_synonym jotting = "string \<times> int \<times> kind \<times> string"

text \<open>
  The process: the guard, the open connections, the handlers that have noted their request,
  those that hold a slot and wait for \<open>Upgrade\<close>, the sessions started so far, and the notes
  made for the observer.
\<close>

type_synonym 'k request = "'k \<times> string \<times> int"

record ('g, 'k) server =
  guard :: 'g
  conns :: "(string \<times> int) multiset"
  arrived :: "'k request multiset"
  upgrading :: "'k request multiset"
  live :: "('k \<times> session) list"
  journal :: "jotting list"

definition boot :: "'g \<Rightarrow> ('g, 'k) server" where
  "boot g = \<lparr>guard = g, conns = {#}, arrived = {#}, upgrading = {#}, live = [], journal = []\<rparr>"

section \<open>Handlers\<close>

definition note_down :: "jotting \<Rightarrow> ('g, 'k) server \<Rightarrow> ('g, 'k) server" where
  "note_down n S = S\<lparr>journal := journal S @ [n]\<rparr>"

text \<open>\<open>ConnContext\<close> and the goroutine it leaves behind for the end of the connection.\<close>

definition conn_opened :: "string \<Rightarrow> int \<Rightarrow> ('g, 'k) server \<Rightarrow> ('g, 'k) server" where
  "conn_opened remote port S =
     (let address = addressOf remote in
      note_down (address, port, QUIC, '''') (S\<lparr>conns := add_mset (address, port) (conns S)\<rparr>))"

definition conn_closed :: "string \<times> int \<Rightarrow> string option \<Rightarrow> ('g, 'k) server \<Rightarrow> ('g, 'k) server" where
  "conn_closed c cause S =
     note_down (fst c, snd c, Closed, closeReason cause) (S\<lparr>conns := conns S - {#c#}\<rparr>)"

text \<open>
  The \<open>/echo\<close> handler in its three parts: the note of the request, the guard's decision,
  and what \<open>Upgrade\<close> returns. A part that ends the handler gives the status it writes.
\<close>

definition echo_arrives :: "'k \<Rightarrow> int \<Rightarrow> header \<Rightarrow> string \<Rightarrow> ('g, 'k) server \<Rightarrow> ('g, 'k) server" where
  "echo_arrives k port h remote S =
     (let address = addressOf remote in
      note_down (address, port, Connect, ''origin='' @ header_get h ''Origin'')
        (S\<lparr>arrived := add_mset (k, address, port) (arrived S)\<rparr>))"

definition echo_admit ::
  "('k, 'g, 'l) guard_ops \<Rightarrow> clock \<Rightarrow> 'k request \<Rightarrow> ('g, 'k) server \<Rightarrow> int option \<times> ('g, 'k) server" where
  "echo_admit G c r S =
     (case r of (k, address, port) \<Rightarrow>
       let ((ok, why), g) = grab_op G c k address (guard S);
           S = S\<lparr>guard := g, arrived := arrived S - {#r#}\<rparr>
       in if \<not> ok then (Some 503, note_down (address, port, Declined, why) S)
          else (None, S\<lparr>upgrading := add_mset r (upgrading S)\<rparr>))"

definition echo_upgrade ::
  "('k, 'g, 'l) guard_ops \<Rightarrow> instant \<Rightarrow> string option \<Rightarrow> 'k request \<Rightarrow> ('g, 'k) server \<Rightarrow> int option \<times> ('g, 'k) server" where
  "echo_upgrade G now err r S =
     (case r of (k, address, port) \<Rightarrow>
       let S = S\<lparr>upgrading := upgrading S - {#r#}\<rparr> in
       case err of
         Some why \<Rightarrow> (Some 500, note_down (address, port, Refused, why) (S\<lparr>guard := give_op G address (guard S)\<rparr>))
       | None \<Rightarrow> (None, note_down (address, port, Session, '''')
           (S\<lparr>live := live S @ [(k, open_session (lifetime_of G k) now address)]\<rparr>)))"

section \<open>Steps\<close>

inductive server_step :: "('k, 'g, 'l) guard_ops \<Rightarrow> ('g, 'k) server \<Rightarrow> ('g, 'k) server \<Rightarrow> bool"
  for G :: "('k, 'g, 'l) guard_ops"
where
  opens: "server_step G S (conn_opened remote port S)"
| closes: "c \<in># conns S \<Longrightarrow> server_step G S (conn_closed c cause S)"
| arrives: "server_step G S (echo_arrives k port h remote S)"
| admits: "r \<in># arrived S \<Longrightarrow> fst c \<le> snd c \<Longrightarrow> server_step G S (snd (echo_admit G c r S))"
| upgrades: "r \<in># upgrading S \<Longrightarrow> server_step G S (snd (echo_upgrade G now err r S))"
| runs: "i < length (live S) \<Longrightarrow> live S ! i = (k, s) \<Longrightarrow>
    session_step (budget_of G k) (charge_op G) (give_op G) (guard S, s) (g, s') \<Longrightarrow>
    server_step G S (S\<lparr>guard := g, live := (live S)[i := (k, s')]\<rparr>)"

inductive_cases server_stepE [consumes 1, case_names opens closes arrives admits upgrades runs]:
  "server_step G S S'"

definition server_run :: "('k, 'g, 'l) guard_ops \<Rightarrow> ('g, 'k) server \<Rightarrow> ('g, 'k) server \<Rightarrow> bool" where
  "server_run G = (server_step G)\<^sup>*\<^sup>*"

end
