(* ===== verification/Server_Facts.thy ===== *)
theory Server_Facts
  imports Server
begin

text \<open>
  The server over a guard that keeps the contracts of \<open>Guard\<close>: every step of the server is a
  run of the slot ledger, whose tickets are the handlers waiting for \<open>Upgrade\<close> and the sessions
  not yet released; every session keeps the invariants of \<open>Echo_Facts\<close>; and within one window
  the meter bounds what all sessions together have been granted.
\<close>

section \<open>Tickets\<close>

definition session_tickets :: "('k \<times> session) list \<Rightarrow> 'k ticket multiset" where
  "session_tickets l = image_mset (\<lambda>(k, s). (k, peer_key s)) (filter_mset (\<lambda>(k, s). phase s \<noteq> Released) (mset l))"

definition tickets :: "('g, 'k) server \<Rightarrow> 'k ticket multiset" where
  "tickets S = image_mset (\<lambda>(k, a, p). (k, a)) (upgrading S) + session_tickets (live S)"

lemma session_tickets_simps [simp]:
  "session_tickets [] = {#}"
  "session_tickets (l @ [(k, s)]) =
    (if phase s = Released then session_tickets l else add_mset (k, peer_key s) (session_tickets l))"
  by (simp_all add: session_tickets_def)

lemma session_tickets_update:
  assumes "i < length l" and "l ! i = (k, s)" and "peer_key s' = peer_key s"
  shows "(phase s' = Released \<longleftrightarrow> phase s = Released) \<Longrightarrow> session_tickets (l[i := (k, s')]) = session_tickets l"
    and "phase s \<noteq> Released \<Longrightarrow> phase s' = Released \<Longrightarrow>
      (k, peer_key s) \<in># session_tickets l \<and>
      session_tickets (l[i := (k, s')]) = session_tickets l - {#(k, peer_key s)#}"
proof -
  have m: "(k, s) \<in># mset l" using assms(1,2) by (metis nth_mem set_mset_mset)
  then obtain M where M: "mset l = add_mset (k, s) M" by (metis insert_DiffM)
  have u: "mset (l[i := (k, s')]) = add_mset (k, s') M" using assms(1,2) M by (simp add: mset_update)
  show "(phase s' = Released \<longleftrightarrow> phase s = Released) \<Longrightarrow> session_tickets (l[i := (k, s')]) = session_tickets l"
    using assms(3) by (simp add: session_tickets_def u M)
  show "phase s \<noteq> Released \<Longrightarrow> phase s' = Released \<Longrightarrow> (k, peer_key s) \<in># session_tickets l \<and>
      session_tickets (l[i := (k, s')]) = session_tickets l - {#(k, peer_key s)#}"
    by (simp add: session_tickets_def u M)
qed

lemma worker_step_guard:
  "worker_step budget charge (g, n, c, w) (g', n', c', w') \<Longrightarrow> g' = g \<or> (\<exists>t m. g' = snd (charge t m g))"
  by (erule worker_stepE) (auto, metis snd_conv)

lemma session_step_guard:
  assumes "session_step budget charge give (g, s) (g', s')"
  shows "peer_key s' = peer_key s \<and>
    ((phase s' = Released \<longleftrightarrow> phase s = Released) \<and> (g' = g \<or> (\<exists>t m. g' = snd (charge t m g))) \<or>
     phase s \<noteq> Released \<and> phase s' = Released \<and> g' = give (peer_key s) g)"
  using assms
proof (cases rule: session_stepE)
  case (work i n c w)
  with worker_step_guard [OF work(3)] show ?thesis by simp
next
  case supervise
  then show ?thesis by (cases rule: supervisor_stepE) simp_all
qed auto

abbreviation ops_ledger ::
  "('k, 'g, 'l) guard_ops \<Rightarrow> 'g \<times> 'k ticket multiset \<Rightarrow> 'g \<times> 'k ticket multiset \<Rightarrow> bool" where
  "ops_ledger G \<equiv> ledger_run (grab_op G) (give_op G) (\<lambda>(c, n) b. snd (charge_op G c n b))"

lemma ledger_run_step:
  "ledger_step grab give other x y \<Longrightarrow> ledger_run grab give other x y"
  by (simp add: ledger_run_def r_into_rtranclp)

lemma ledger_run_refl: "ledger_run grab give other x x"
  by (simp add: ledger_run_def)

lemma note_down_sel [simp]:
  "guard (note_down n S) = guard S" "conns (note_down n S) = conns S" "arrived (note_down n S) = arrived S"
  "upgrading (note_down n S) = upgrading S" "live (note_down n S) = live S"
  "journal (note_down n S) = journal S @ [n]"
  by (simp_all add: note_down_def)

lemma admit_ledger:
  assumes "echo_admit G c r S = (st, S')"
  shows "ops_ledger G (guard S, tickets S) (guard S', tickets S')"
proof -
  obtain k a p where r: "r = (k, a, p)" by (metis prod.collapse)
  obtain ok why g where g: "grab_op G c k a (guard S) = ((ok, why), g)" by (metis prod.collapse)
  show ?thesis
  proof (cases ok)
    case True
    have "guard S' = g" "tickets S' = add_mset (k, a) (tickets S)"
      using assms g True by (auto simp: echo_admit_def r tickets_def)
    moreover have "grab_op G c k a (guard S) = ((True, why), g)" using g True by simp
    ultimately show ?thesis by (simp add: ledger_run_step ledger_step.granted)
  next
    case False
    have "guard S' = g" "tickets S' = tickets S"
      using assms g False by (auto simp: echo_admit_def r tickets_def)
    moreover have "grab_op G c k a (guard S) = ((False, why), g)" using g False by simp
    ultimately show ?thesis by (simp add: ledger_run_step ledger_step.refused)
  qed
qed

lemma upgrade_ledger:
  assumes "echo_upgrade G now err r S = (st, S')" and "r \<in># upgrading S"
  shows "ops_ledger G (guard S, tickets S) (guard S', tickets S')"
proof -
  obtain k a p where r: "r = (k, a, p)" by (metis prod.collapse)
  obtain M where M: "upgrading S = add_mset r M" using assms(2) by (metis insert_DiffM)
  show ?thesis
  proof (cases err)
    case None
    then have "guard S' = guard S" "tickets S' = tickets S"
      using assms M by (auto simp: echo_upgrade_def r tickets_def open_session_def)
    then show ?thesis by (simp add: ledger_run_refl)
  next
    case (Some why)
    have "guard S' = give_op G a (guard S)" "tickets S' = tickets S - {#(k, a)#}" "(k, a) \<in># tickets S"
      using assms M Some by (auto simp: echo_upgrade_def r tickets_def)
    then show ?thesis by (simp add: ledger_run_step ledger_step.returned)
  qed
qed

lemma server_step_ledger:
  assumes "server_step G S S'"
  shows "ops_ledger G (guard S, tickets S) (guard S', tickets S')"
  using assms
proof (cases rule: server_stepE)
  case (admits r c)
  then show ?thesis using admit_ledger [of G c r S "fst (echo_admit G c r S)" S'] by simp
next
  case (upgrades r now err)
  then show ?thesis using upgrade_ledger [of G now err r S "fst (echo_upgrade G now err r S)" S'] by simp
next
  case (runs i k s g s')
  let ?t = "\<lambda>l. image_mset (\<lambda>(k, a, p). (k, a)) (upgrading S) + session_tickets l"
  have S': "guard S' = g" "tickets S' = ?t ((live S)[i := (k, s')])" using runs(1) by (simp_all add: tickets_def)
  note sg = session_step_guard [OF runs(4)]
  note up = session_tickets_update [OF runs(2,3), of s']
  from sg consider (same) "tickets S' = tickets S" "g = guard S \<or> (\<exists>t m. g = snd (charge_op G t m (guard S)))"
    | (freed) "(k, peer_key s) \<in># tickets S" "tickets S' = tickets S - {#(k, peer_key s)#}"
        "g = give_op G (peer_key s) (guard S)"
    using up S'(2) by (auto simp: tickets_def)
  then show ?thesis
  proof cases
    case same
    then show ?thesis
      using ledger_step.aside [of "grab_op G" "give_op G" "\<lambda>(c, n) b. snd (charge_op G c n b)" "guard S" "tickets S"]
      unfolding S'(1) same(1) by (auto intro: ledger_run_refl ledger_run_step)
  next
    case freed
    then show ?thesis unfolding S'(1) by (simp add: ledger_run_step ledger_step.returned)
  qed
qed (simp_all add: ledger_run_refl conn_opened_def conn_closed_def echo_arrives_def Let_def tickets_def note_down_def)

lemma server_run_ledger:
  assumes "server_run G S S'"
  shows "ops_ledger G (guard S, tickets S) (guard S', tickets S')"
  using assms unfolding server_run_def
proof (induction rule: rtranclp_induct)
  case (step S' S'')
  from server_step_ledger [OF step.hyps(2)] step.IH show ?case
    unfolding ledger_run_def by (rule rtranclp_trans [rotated])
qed (simp add: ledger_run_refl)

lemma tickets_boot [simp]: "tickets (boot g) = {#}" "guard (boot g) = g"
  by (simp_all add: boot_def tickets_def)

section \<open>Sessions of a running server\<close>

definition session_ok :: "int \<Rightarrow> session \<Rightarrow> bool" where
  "session_ok budget s \<longleftrightarrow> echo_ok s \<and> stop_due budget s \<and>
     (total offered s < 2 ^ 63 \<longrightarrow> accounted budget s \<and> reasons_ok budget s)"

lemma session_ok_step:
  assumes "session_step budget charge give (g, s) (g', s')" and "session_ok budget s"
  shows "session_ok budget s'"
  using assms echo_ok_step [OF assms(1)] stop_due_step [OF assms(1)] accounted_step [OF assms(1)]
    reasons_ok_step [OF assms(1)] session_step_offered [OF assms(1)]
  by (auto simp: session_ok_def)

lemma session_ok_open: "0 \<le> budget \<Longrightarrow> session_ok budget (open_session lifetime t a)"
  by (simp add: session_ok_def echo_ok_open stop_due_open accounted_open reasons_ok_open)

lemma admit_frame:
  "live (snd (echo_admit G c r S)) = live S \<and> conns (snd (echo_admit G c r S)) = conns S"
  by (simp add: echo_admit_def Let_def split: prod.splits)

lemma upgrade_live:
  "live (snd (echo_upgrade G now err r S)) = live S \<or>
    (\<exists>k a. live (snd (echo_upgrade G now err r S)) = live S @ [(k, open_session (lifetime_of G k) now a)])"
  by (auto simp: echo_upgrade_def Let_def split: prod.splits option.splits)

text \<open>A server step leaves the sessions alone, starts one, or runs one.\<close>

lemma server_step_live:
  assumes "server_step G S S'"
  obtains (same) "live S' = live S"
  | (started) k t a where "live S' = live S @ [(k, open_session (lifetime_of G k) t a)]" "guard S' = guard S"
  | (ran) i k s s' where "i < length (live S)" "live S ! i = (k, s)" "live S' = (live S)[i := (k, s')]"
      "session_step (budget_of G k) (charge_op G) (give_op G) (guard S, s) (guard S', s')"
  using assms
proof (cases rule: server_stepE)
  case (admits r c)
  then show thesis using admit_frame [of G c r S] same by simp
next
  case (upgrades r now err)
  show thesis
  proof (cases err)
    case None
    then show thesis using upgrades started
      by (simp add: echo_upgrade_def Let_def split: prod.splits)
  next
    case (Some why)
    then show thesis using upgrades same
      by (simp add: echo_upgrade_def Let_def split: prod.splits)
  qed
next
  case (runs i k s g s')
  then show thesis using ran by simp
qed (use same in \<open>simp_all add: conn_opened_def conn_closed_def echo_arrives_def Let_def\<close>)

lemma server_run_sessions:
  assumes "server_run G (boot g) S" and "\<And>k. 0 \<le> budget_of G k" and "(k, s) \<in> set (live S)"
  shows "session_ok (budget_of G k) s"
proof -
  have "\<forall>(k, s) \<in> set (live S). session_ok (budget_of G k) s"
    using assms(1) unfolding server_run_def
  proof (induction rule: rtranclp_induct)
    case base
    then show ?case by (simp add: boot_def)
  next
    case (step S S')
    from step.hyps(2) show ?case
    proof (cases rule: server_step_live)
      case (ran i k s s')
      have "(k, s) \<in> set (live S)" using ran(1,2) by (metis nth_mem)
      with step.IH have "session_ok (budget_of G k) s" by auto
      from session_ok_step [OF ran(4) this] show ?thesis
        unfolding ran(3) by (intro all_set_update step.IH) simp
    qed (use step.IH assms(2) session_ok_open in auto)
  qed
  with assms(3) show ?thesis by auto
qed

section \<open>The journal\<close>

definition jots :: "string \<Rightarrow> int \<Rightarrow> kind \<Rightarrow> ('g, 'k) server \<Rightarrow> nat" where
  "jots a p k S = length (filter (\<lambda>(a', p', k', d). a' = a \<and> p' = p \<and> k' = k) (journal S))"

definition waiting :: "string \<Rightarrow> int \<Rightarrow> 'k request multiset \<Rightarrow> nat" where
  "waiting a p M = size (filter_mset (\<lambda>(k, a', p'). a' = a \<and> p' = p) M)"

definition journal_ok :: "string \<Rightarrow> int \<Rightarrow> ('g, 'k) server \<Rightarrow> bool" where
  "journal_ok a p S \<longleftrightarrow>
     jots a p Connect S = waiting a p (arrived S) + waiting a p (upgrading S) +
       jots a p Declined S + jots a p Refused S + jots a p Session S \<and>
     jots a p QUIC S = count (conns S) (a, p) + jots a p Closed S"

lemma jots_note [simp]:
  "jots a p k (note_down (a', p', k', d) S) = jots a p k S + (if a' = a \<and> p' = p \<and> k' = k then 1 else 0)"
  by (simp add: jots_def)

lemma jots_frame [simp]:
  "jots a p k (S\<lparr>guard := g\<rparr>) = jots a p k S" "jots a p k (S\<lparr>conns := cs\<rparr>) = jots a p k S"
  "jots a p k (S\<lparr>arrived := M\<rparr>) = jots a p k S" "jots a p k (S\<lparr>upgrading := M\<rparr>) = jots a p k S"
  "jots a p k (S\<lparr>live := l\<rparr>) = jots a p k S"
  by (simp_all add: jots_def)

lemma waiting_simps [simp]:
  "waiting a p {#} = 0"
  "waiting a p (add_mset (k, a', p') M) = (if a' = a \<and> p' = p then 1 else 0) + waiting a p M"
  by (simp_all add: waiting_def)

lemma waiting_remove:
  "(k, a', p') \<in># M \<Longrightarrow> waiting a p M = (if a' = a \<and> p' = p then 1 else 0) + waiting a p (M - {#(k, a', p')#})"
  using waiting_simps(2) [of a p k a' p' "M - {#(k, a', p')#}"] by (simp add: insert_DiffM)

lemma journal_ok_step:
  assumes "server_step G S S'" and "journal_ok a p S"
  shows "journal_ok a p S'"
  using assms(1)
proof (cases rule: server_stepE)
  case (opens remote port)
  with assms(2) show ?thesis by (auto simp: journal_ok_def conn_opened_def Let_def)
next
  case (closes c cause)
  obtain a' p' where c: "c = (a', p')" by fastforce
  have "0 < count (conns S) (a', p')" using closes(2) by (simp add: c)
  with assms(2) closes(1) show ?thesis by (auto simp: journal_ok_def conn_closed_def c)
next
  case (arrives k port h remote)
  with assms(2) show ?thesis by (auto simp: journal_ok_def echo_arrives_def Let_def)
next
  case (admits r c)
  obtain k a' p' where r: "r = (k, a', p')" by (metis prod.collapse)
  obtain ok why g where g: "grab_op G c k a' (guard S) = ((ok, why), g)" by (metis prod.collapse)
  have w: "waiting a p (arrived S) = (if a' = a \<and> p' = p then 1 else 0) + waiting a p (arrived S - {#r#})"
    unfolding r by (rule waiting_remove) (use admits(2) r in simp)
  show ?thesis
    using assms(2) w unfolding admits(1) echo_admit_def
    by (cases ok) (auto simp: r g journal_ok_def)
next
  case (upgrades r now err)
  obtain k a' p' where r: "r = (k, a', p')" by (metis prod.collapse)
  have w: "waiting a p (upgrading S) = (if a' = a \<and> p' = p then 1 else 0) + waiting a p (upgrading S - {#r#})"
    unfolding r by (rule waiting_remove) (use upgrades(2) r in simp)
  show ?thesis
    using assms(2) w unfolding upgrades(1) echo_upgrade_def
    by (cases err) (auto simp: r journal_ok_def)
next
  case (runs i k s g s')
  with assms(2) show ?thesis by (simp add: journal_ok_def jots_def)
qed

lemma journal_ok_run:
  assumes "server_run G (boot g) S"
  shows "journal_ok a p S"
  using assms unfolding server_run_def
proof (induction rule: rtranclp_induct)
  case base
  show ?case by (simp add: journal_ok_def boot_def jots_def)
qed (rule journal_ok_step)

section \<open>The server over a guard that keeps its contract\<close>

definition pre :: "worker \<Rightarrow> int" where
  "pre w = (case stage w of Counting d _ \<Rightarrow> int (length d) | Charging d _ \<Rightarrow> int (length d) | _ \<Rightarrow> 0)"

definition paid :: "worker \<Rightarrow> int" where
  "paid w = sent w + (case stage w of Sending d _ \<Rightarrow> int (length d) | _ \<Rightarrow> 0)"

definition grand :: "(worker \<Rightarrow> int) \<Rightarrow> ('g, 'k) server \<Rightarrow> int" where
  "grand f S = sum_list (map (\<lambda>(k, s). total f s) (live S))"

lemma paid_sent: "sent w \<le> paid w" and pre_nonneg [simp]: "0 \<le> pre w"
  by (simp_all add: paid_def pre_def split: stage.splits)

lemma fresh_worker_paid [simp]: "pre (fresh_worker f) = 0" "paid (fresh_worker f) = 0"
  by (simp_all add: pre_def paid_def) (simp_all add: fresh_worker_def sent_def)

lemma total_open [simp]: "total f (open_session lifetime t a) = f (fresh_worker DatagramFlow)"
  by (simp add: total_def open_session_def)

lemma total_nonneg: "(\<And>w. 0 \<le> f w) \<Longrightarrow> 0 \<le> total f s"
  unfolding total_def by (rule sum_list_nonneg_int) auto

lemma total_mono: "(\<And>w. f w \<le> h w) \<Longrightarrow> total f s \<le> total h s"
  unfolding total_def by (rule sum_list_mono)

lemma grand_nonneg: "(\<And>w. 0 \<le> f w) \<Longrightarrow> 0 \<le> grand f S"
  unfolding grand_def by (rule sum_list_nonneg_int) (auto intro: total_nonneg)

lemma grand_mono: "(\<And>w. f w \<le> h w) \<Longrightarrow> grand f S \<le> grand h S"
  unfolding grand_def by (rule sum_list_mono) (auto intro: total_mono)

lemma grand_update:
  assumes "i < length (live S)" and "live S ! i = (k, s)" and "live S' = (live S)[i := (k, s')]"
  shows "grand f S' = grand f S - total f s + total f s'"
  unfolding grand_def assms(3) using assms(1,2) by (simp add: sum_list_update_int)

lemma grand_member:
  "(\<And>w. 0 \<le> f w) \<Longrightarrow> (k, s) \<in> set (live S) \<Longrightarrow> total f s \<le> grand f S"
  unfolding grand_def
  by (rule member_le_sum_list [of "total f s" "map (\<lambda>(k, s). total f s) (live S)", simplified])
    (force intro: total_nonneg)+

text \<open>The bytes a charge has admitted that are still to be sent.\<close>

definition in_hand :: "worker \<Rightarrow> int" where
  "in_hand w = (case stage w of Sending d _ \<Rightarrow> int (length d) | _ \<Rightarrow> 0)"

locale echo_server =
  slot_ledger held keys tidy "grab_op G" "give_op G" "\<lambda>(c, n) b. snd (charge_op G c n b)" cap top +
  egress_meter used opened "charge_op G" ceiling
  for G :: "('k, 'b, 'l) guard_ops" and held keys tidy cap top used opened ceiling +
  assumes budgets_nonneg: "0 \<le> budget_of G k"
    and grab_meter: "grab_op G (t\<^sub>1, t\<^sub>2) k a b = (r, b') \<Longrightarrow> t\<^sub>1 \<le> t\<^sub>2 \<Longrightarrow> opened b' = opened b \<Longrightarrow> used b' = used b"
    and grab_roll: "grab_op G (t\<^sub>1, t\<^sub>2) k a b = (r, b') \<Longrightarrow> opened b' \<noteq> opened b \<Longrightarrow> used b' = 0"
    and give_meter: "used (give_op G a b) = used b" "opened (give_op G a b) = opened b"
begin

lemma slots:
  assumes "server_run G (boot b) S" and "tidy b" and "\<And>a. held b a = 0"
  shows "held (guard S) a = slots_of (tickets S) a \<and> slots_of (tickets S) a \<le> top \<and>
    int (count (tickets S) (k, a)) \<le> cap k \<and> keys (guard S) = snd ` set_mset (tickets S)"
  using run_from_idle [of b "guard S" "tickets S" a k] server_run_ledger [OF assms(1)] assms(2,3) by simp

lemma charge_window:
  assumes "charge_op G c n b = ((ok, l), b')" and "fst c \<le> snd c" and "opened b' = opened b"
  shows "used b' = wrap64 (used b + n) \<and> (ok \<longleftrightarrow> used b' < ceiling)"
proof -
  obtain t\<^sub>1 t\<^sub>2 where c: "c = (t\<^sub>1, t\<^sub>2)" by fastforce
  show ?thesis
  proof (cases "t\<^sub>1 - opened b < day")
    case True
    with charge_same [of t\<^sub>1 t\<^sub>2 n b ok l b'] assms(1) show ?thesis by (simp add: c)
  next
    case False
    with charge_fresh [of t\<^sub>1 t\<^sub>2 n b ok l b'] assms have "opened b < opened b'" by (simp add: c)
    with assms(3) show ?thesis by simp
  qed
qed

lemma worker_window:
  assumes "worker_step budget (charge_op G) (b, n, c, w) (b', n', c', w')"
    and "opened b' = opened b" and "0 \<le> used b" and "used b + pre w < 2 ^ 63"
  shows "used b \<le> used b' \<and> used b' + pre w' - offered w' \<le> used b + pre w - offered w \<and>
    paid w' - paid w \<le> used b' - used b \<and> (paid w' \<le> paid w \<or> used b' < ceiling)"
  using assms
proof (cases rule: worker_stepE)
  case (charge data err t ok l)
  then have "pre w = int (length data)" by (simp add: pre_def)
  moreover have "used b' = wrap64 (used b + int (length data))" "ok \<longleftrightarrow> used b' < ceiling"
    using charge_window [of t "int (length data)" b ok l b'] charge assms(2) by auto
  ultimately show ?thesis
    using charge assms(3,4) by (auto simp: wrap64_id pre_def paid_def sent_def offered_def)
qed (auto simp: pre_def paid_def sent_def offered_def)

lemma session_window:
  assumes "session_step budget (charge_op G) (give_op G) (b, s) (b', s')"
    and "opened b' = opened b" and "0 \<le> used b" and "used b + total pre s < 2 ^ 63"
  shows "used b \<le> used b' \<and> used b' + total pre s' - total offered s' \<le> used b + total pre s - total offered s \<and>
    total paid s' - total paid s \<le> used b' - used b \<and> (total paid s' \<le> total paid s \<or> used b' < ceiling)"
  using assms(1)
proof (cases rule: session_stepE)
  case (work i n c w)
  have "pre (workers s ! i) \<le> total pre s"
    unfolding total_def using work(2) by (rule sum_list_ge_member) simp
  then have "used b + pre (workers s ! i) < 2 ^ 63" using assms(4) by linarith
  from worker_window [OF work(3) assms(2,3) this] show ?thesis
    unfolding work(1) total_work [OF work(2)] by auto
next
  case supervise
  then show ?thesis by (cases rule: supervisor_stepE) (simp_all add: total_def give_meter)
qed (simp_all add: total_def)

text \<open>A run within one window of the meter.\<close>

definition window_step :: "('b, 'k) server \<Rightarrow> ('b, 'k) server \<Rightarrow> bool" where
  "window_step S S' \<longleftrightarrow> server_step G S S' \<and> opened (guard S') = opened (guard S)"

definition budgeted :: "('b, 'k) server \<Rightarrow> bool" where
  "budgeted S \<longleftrightarrow> 0 \<le> used (guard S) \<and> used (guard S) + grand pre S \<le> grand offered S"

text \<open>What has been paid beyond \<open>p\<close> is in the meter and below the ceiling.\<close>

definition metered :: "int \<Rightarrow> ('b, 'k) server \<Rightarrow> bool" where
  "metered p S \<longleftrightarrow> budgeted S \<and> grand paid S - p \<le> used (guard S) \<and> grand paid S - p < ceiling"

lemma server_step_offered:
  assumes "server_step G S S'"
  shows "grand offered S \<le> grand offered S'"
  using assms
proof (cases rule: server_step_live)
  case (ran i k s s')
  with session_step_offered [OF ran(4)] grand_update [OF ran(1-3), of offered] show ?thesis by simp
qed (simp_all add: grand_def)

lemma quiet_meter:
  assumes "server_step G S S'" and "opened (guard S') = opened (guard S)"
  shows "used (guard S') = used (guard S) \<or>
    (\<exists>i k s s'. i < length (live S) \<and> live S ! i = (k, s) \<and> live S' = (live S)[i := (k, s')] \<and>
      session_step (budget_of G k) (charge_op G) (give_op G) (guard S, s) (guard S', s'))"
  using assms(1)
proof (cases rule: server_stepE)
  case (admits r c)
  obtain k a p where r: "r = (k, a, p)" by (metis prod.collapse)
  obtain x g where g: "grab_op G c k a (guard S) = (x, g)" by fastforce
  have "guard S' = g" using admits(1) g by (cases x) (simp add: echo_admit_def r Let_def)
  with grab_meter [of "fst c" "snd c" k a "guard S" x g] g admits(3) assms(2) show ?thesis by simp
next
  case (upgrades r now err)
  obtain k a p where r: "r = (k, a, p)" by (metis prod.collapse)
  show ?thesis using upgrades(1) give_meter by (cases err) (simp_all add: echo_upgrade_def r)
next
  case (runs i k s g s')
  then show ?thesis by auto
qed (simp_all add: conn_opened_def conn_closed_def echo_arrives_def Let_def)

lemma metered_step:
  assumes "window_step S S'" and "metered p S" and "grand offered S' < 2 ^ 63"
  shows "metered p S'"
proof -
  have step: "server_step G S S'" and same: "opened (guard S') = opened (guard S)"
    using assms(1) by (simp_all add: window_step_def)
  have off: "grand offered S < 2 ^ 63" using server_step_offered [OF step] assms(3) by linarith
  have moved: ?thesis if "i < length (live S)" "live S ! i = (k, s)" "live S' = (live S)[i := (k, s')]"
      "session_step (budget_of G k) (charge_op G) (give_op G) (guard S, s) (guard S', s')" for i k s s'
  proof -
    have "(k, s) \<in> set (live S)" using that(1,2) by (metis nth_mem)
    then have "total pre s \<le> grand pre S" by (intro grand_member) simp_all
    then have "used (guard S) + total pre s < 2 ^ 63" using assms(2) off by (simp add: metered_def budgeted_def)
    moreover have "0 \<le> used (guard S)" using assms(2) by (simp add: metered_def budgeted_def)
    ultimately have "used (guard S) \<le> used (guard S') \<and>
        used (guard S') + total pre s' - total offered s' \<le> used (guard S) + total pre s - total offered s \<and>
        total paid s' - total paid s \<le> used (guard S') - used (guard S) \<and>
        (total paid s' \<le> total paid s \<or> used (guard S') < ceiling)"
      using session_window [OF that(4) same] by blast
    with assms(2) grand_update [OF that(1-3)] show ?thesis by (auto simp: metered_def budgeted_def)
  qed
  from quiet_meter [OF step same] show ?thesis
  proof
    assume u: "used (guard S') = used (guard S)"
    from step show ?thesis
    proof (cases rule: server_step_live)
      case same
      with u assms(2) show ?thesis by (simp add: metered_def budgeted_def grand_def)
    next
      case (started k t a)
      with u assms(2) show ?thesis by (simp add: metered_def budgeted_def grand_def)
    next
      case (ran i k s s')
      then show ?thesis by (rule moved)
    qed
  qed (use moved in blast)
qed

text \<open>A step that opens a window: what is paid from then on is paid in it.\<close>

lemma charge_roll:
  assumes "charge_op G c n b = ((ok, l), b')" and "opened b' \<noteq> opened b"
  shows "used b' = wrap64 n \<and> (ok \<longleftrightarrow> used b' < ceiling)"
proof -
  obtain t\<^sub>1 t\<^sub>2 where c: "c = (t\<^sub>1, t\<^sub>2)" by fastforce
  show ?thesis
  proof (cases "t\<^sub>1 - opened b < day")
    case True
    with charge_same [of t\<^sub>1 t\<^sub>2 n b ok l b'] assms show ?thesis by (simp add: c)
  next
    case False
    with charge_fresh [of t\<^sub>1 t\<^sub>2 n b ok l b'] assms(1) show ?thesis by (simp add: c)
  qed
qed

lemma session_roll:
  assumes "session_step budget (charge_op G) (give_op G) (b, s) (b', s')" and "opened b' \<noteq> opened b"
    and "total pre s < 2 ^ 63"
  shows "0 \<le> used b' \<and> used b' + total pre s' \<le> total pre s \<and> total offered s \<le> total offered s' \<and>
    total paid s' - total paid s \<le> used b' \<and> (total paid s' \<le> total paid s \<or> used b' < ceiling)"
  using assms(1)
proof (cases rule: session_stepE)
  case (work i n c w)
  have le: "pre (workers s ! i) \<le> total pre s"
    unfolding total_def using work(2) by (rule sum_list_ge_member) simp
  from work(3) have "0 \<le> used b' \<and> used b' + pre w \<le> pre (workers s ! i) \<and> offered (workers s ! i) \<le> offered w \<and>
      paid w - paid (workers s ! i) \<le> used b' \<and> (paid w \<le> paid (workers s ! i) \<or> used b' < ceiling)"
  proof (cases rule: worker_stepE)
    case (charge data err t ok l)
    then have "pre (workers s ! i) = int (length data)" by (simp add: pre_def)
    moreover have "used b' = wrap64 (int (length data))" "ok \<longleftrightarrow> used b' < ceiling"
      using charge_roll [of t "int (length data)" b ok l b'] charge assms(2) by auto
    ultimately show ?thesis
      using charge le assms(3) by (auto simp: wrap64_id pre_def paid_def sent_def offered_def)
  qed (use assms(2) in auto)
  then show ?thesis unfolding work(1) total_work [OF work(2)] by auto
next
  case supervise
  then show ?thesis using assms(2) by (cases rule: supervisor_stepE) (simp_all add: give_meter)
qed (use assms(2) in simp_all)

lemma metered_roll:
  assumes "server_step G S S'" and "opened (guard S') \<noteq> opened (guard S)" and "budgeted S" and "grand offered S < 2 ^ 63"
  shows "metered (grand paid S) S'"
  using assms(1)
proof (cases rule: server_stepE)
  case (admits r c)
  obtain k a p where r: "r = (k, a, p)" by (metis prod.collapse)
  obtain x g where g: "grab_op G c k a (guard S) = (x, g)" by fastforce
  have "guard S' = g" "live S' = live S" using admits(1) g by (cases x, simp add: echo_admit_def r Let_def)+
  moreover from this have "used g = 0" using grab_roll [of "fst c" "snd c" k a "guard S" x g] g assms(2) by simp
  ultimately show ?thesis using assms(3) ceiling_pos by (simp add: metered_def budgeted_def grand_def)
next
  case (upgrades r now err)
  obtain k a p where r: "r = (k, a, p)" by (metis prod.collapse)
  have "opened (guard S') = opened (guard S)"
    using upgrades(1) give_meter by (cases err) (simp_all add: echo_upgrade_def r)
  with assms(2) show ?thesis by simp
next
  case (runs i k s g s')
  have live: "live S' = (live S)[i := (k, s')]" and g: "guard S' = g" using runs(1) by simp_all
  have m: "(k, s) \<in> set (live S)" using runs(2,3) by (metis nth_mem)
  then have "total pre s \<le> grand pre S" by (intro grand_member) simp_all
  then have "total pre s < 2 ^ 63" using assms(3,4) by (simp add: budgeted_def)
  from session_roll [OF runs(4) _ this] assms(2) g have r: "0 \<le> used g \<and> used g + total pre s' \<le> total pre s \<and>
      total offered s \<le> total offered s' \<and> total paid s' - total paid s \<le> used g \<and> (total paid s' \<le> total paid s \<or> used g < ceiling)"
    by simp
  have "grand f S' = grand f S - total f s + total f s'" for f by (rule grand_update [OF runs(2,3) live])
  with r assms(3) ceiling_pos show ?thesis by (auto simp: metered_def budgeted_def g)
qed (use assms(2) in \<open>simp_all add: conn_opened_def conn_closed_def echo_arrives_def Let_def\<close>)

lemma budgeted_step:
  assumes "server_step G S S'" and "budgeted S" and "grand offered S' < 2 ^ 63"
  shows "budgeted S'"
proof (cases "opened (guard S') = opened (guard S)")
  case True
  have "metered (grand paid S) S" using assms(2) ceiling_pos by (simp add: metered_def budgeted_def)
  with metered_step [of S S' "grand paid S"] True assms show ?thesis by (simp add: window_step_def metered_def)
next
  case False
  have "grand offered S < 2 ^ 63" using server_step_offered [OF assms(1)] assms(3) by linarith
  from metered_roll [OF assms(1) False assms(2) this] show ?thesis by (simp add: metered_def)
qed

lemma budgeted_run:
  assumes "server_run G (boot b) S" and "used b = 0" and "grand offered S < 2 ^ 63"
  shows "budgeted S"
  using assms(1,3) unfolding server_run_def
proof (induction rule: rtranclp_induct)
  case base
  then show ?case using assms(2) by (simp add: budgeted_def boot_def grand_def)
next
  case (step S S')
  then show ?case using budgeted_step [OF step.hyps(2)] server_step_offered [OF step.hyps(2)] by simp
qed

lemma metered_run:
  assumes "window_step\<^sup>*\<^sup>* S S'" and "metered p S" and "grand offered S' < 2 ^ 63"
  shows "metered p S'"
  using assms(1,3)
proof (induction rule: rtranclp_induct)
  case base
  show ?case by (rule assms(2))
next
  case (step K K')
  then show ?case using metered_step [OF step.hyps(2)] server_step_offered [of K K'] by (simp add: window_step_def)
qed

lemma window_offered: "window_step\<^sup>*\<^sup>* S S' \<Longrightarrow> grand offered S \<le> grand offered S'"
  by (induction rule: rtranclp_induct) (auto simp: window_step_def dest: server_step_offered)

lemma window_egress:
  assumes "window_step\<^sup>*\<^sup>* (boot b) S" and "used b = 0" and "grand offered S < 2 ^ 63"
  shows "grand paid S < ceiling"
proof -
  have "metered 0 (boot b)" using assms(2) ceiling_pos by (simp add: metered_def budgeted_def boot_def grand_def)
  from metered_run [OF assms(1) this assms(3)] show ?thesis by (simp add: metered_def)
qed

lemma later_window_egress:
  assumes "server_run G (boot b) S\<^sub>0" and "used b = 0" and "server_step G S\<^sub>0 S" and "opened (guard S) \<noteq> opened (guard S\<^sub>0)"
    and "window_step\<^sup>*\<^sup>* S S'" and "grand offered S' < 2 ^ 63"
  shows "grand paid S' - grand paid S\<^sub>0 < ceiling"
proof -
  have o: "grand offered S\<^sub>0 < 2 ^ 63" using server_step_offered [OF assms(3)] window_offered [OF assms(5)] assms(6) by linarith
  from metered_roll [OF assms(3,4) budgeted_run [OF assms(1,2) o] o] have "metered (grand paid S\<^sub>0) S" .
  from metered_run [OF assms(5) this assms(6)] show ?thesis by (simp add: metered_def)
qed

text \<open>A session that gives the ceiling as its reason was live when the meter stood at it.\<close>

lemma ceiling_reached:
  assumes "server_run G (boot b) S" and "i < length (live S)" and "says_ceiling (snd (live S ! i))"
  shows "\<exists>S\<^sub>0. server_run G (boot b) S\<^sub>0 \<and> server_run G S\<^sub>0 S \<and> i < length (live S\<^sub>0) \<and> ceiling \<le> used (guard S\<^sub>0)"
  using assms unfolding server_run_def
proof (induction rule: rtranclp_induct)
  case base
  then show ?case by (simp add: boot_def)
next
  case (step S S')
  have late: ?case if "i < length (live S)" "says_ceiling (snd (live S ! i))"
    using step.IH [OF that] step.hyps(2) by (meson rtranclp.rtrancl_into_rtrancl)
  have run: "(server_step G)\<^sup>*\<^sup>* (boot b) S'" using step.hyps by (rule rtranclp.rtrancl_into_rtrancl)
  from step.hyps(2) show ?case
  proof (cases rule: server_step_live)
    case same
    with late step.prems show ?thesis by simp
  next
    case (started k t a)
    with late step.prems show ?thesis by (cases "i < length (live S)") (auto simp: nth_append less_Suc_eq)
  next
    case (ran j k s s')
    show ?thesis
    proof (cases "i = j")
      case True
      with ran step.prems have "says_ceiling s'" by simp
      from says_ceiling_step [OF ran(4) this] show ?thesis
      proof (elim disjE exE conjE)
        assume "says_ceiling s"
        with late ran True show ?thesis by simp
      next
        fix t m l assume c: "fst t \<le> snd t" "charge_op G t m (guard S) = ((False, l), guard S')"
        have "ceiling \<le> used (guard S')"
          using charge_window [OF c(2,1)] charge_roll [OF c(2)] by (cases "opened (guard S') = opened (guard S)") auto
        with run step.prems(1) show ?thesis by blast
      qed
    qed (use late ran step.prems in simp)
  qed
qed

end

end
