(* ===== verification/Service.thy ===== *)
theory Service
  imports Server_Facts
begin

text \<open>
  The two binaries as servers: \<open>serveEcho\<close> and the handlers of \<open>Server\<close> over the guard of
  \<open>main.go\<close> and over that of \<open>legacy/main.go\<close> with its flow-control probe, the
  interpretations of the server's contract on both, and the properties of the service.
\<close>

section \<open>The main binary\<close>

definition serveEcho :: "budgets \<times> session \<Rightarrow> budgets \<times> session \<Rightarrow> bool" where
  "serveEcho = session_step sessionEchoBudget spend release"

definition main_ops :: "(unit, budgets, alarm list) guard_ops" where
  "main_ops = \<lparr>grab_op = (\<lambda>c _. acquire c), give_op = release, charge_op = spend,
     budget_of = (\<lambda>_. sessionEchoBudget), lifetime_of = (\<lambda>_. sessionLifetime)\<rparr>"

lemma main_ops_sel [simp]:
  "grab_op main_ops = (\<lambda>c _. acquire c)" "give_op main_ops = release" "charge_op main_ops = spend"
  "budget_of main_ops k = sessionEchoBudget" "lifetime_of main_ops k = sessionLifetime"
  by (simp_all add: main_ops_def)

section \<open>The legacy binary\<close>

text \<open>The budget and lifetime \<open>serveWT\<close> picks for its listener.\<close>

definition serveWT_budget :: "bool \<Rightarrow> int" where
  "serveWT_budget probe = (if probe then probeEchoBudget else legacy_sessionEchoBudget)"

definition serveWT_lifetime :: "bool \<Rightarrow> duration" where
  "serveWT_lifetime probe = (if probe then probeLifetime else legacy_sessionLifetime)"

fun legacy_echoStream :: "(int \<Rightarrow> 'g \<Rightarrow> bool \<times> 'g) \<Rightarrow> iteration list \<Rightarrow> 'g \<Rightarrow> bytes \<times> bool \<times> 'g" where
  "legacy_echoStream pay [] g = ([], False, g)"
| "legacy_echoStream pay ((data, err, fault) # script) g =
     (if data \<noteq> [] then
        (let (ok, g) = pay (int (length data)) g in
         if \<not> ok then ([], True, g)
         else case fault of
           Some k \<Rightarrow> (take k data, True, g)
         | None \<Rightarrow>
             if err then (data, True, g)
             else (let (written, closed, g) = legacy_echoStream pay script g in (data @ written, closed, g)))
      else if err then ([], True, g)
      else legacy_echoStream pay script g)"

definition legacy_serveEcho :: "int \<Rightarrow> legacy_budgets \<times> session \<Rightarrow> legacy_budgets \<times> session \<Rightarrow> bool" where
  "legacy_serveEcho budget = session_step budget legacy_spend legacy_release"

definition legacy_ops :: "(bool, legacy_budgets, alarm list) guard_ops" where
  "legacy_ops = \<lparr>grab_op = legacy_acquire, give_op = legacy_release, charge_op = legacy_spend,
     budget_of = serveWT_budget, lifetime_of = serveWT_lifetime\<rparr>"

lemma legacy_ops_sel [simp]:
  "grab_op legacy_ops = legacy_acquire" "give_op legacy_ops = legacy_release"
  "charge_op legacy_ops = legacy_spend" "budget_of legacy_ops = serveWT_budget"
  "lifetime_of legacy_ops = serveWT_lifetime"
  by (simp_all add: legacy_ops_def)

text \<open>The legacy copies of the handler's parts and of \<open>ConnContext\<close>.\<close>

definition legacy_conn_opened :: "string \<Rightarrow> int \<Rightarrow> ('g, 'k) server \<Rightarrow> ('g, 'k) server" where
  "legacy_conn_opened remote port S =
     (let address = legacy_addressOf remote in
      note_down (address, port, QUIC, '''') (S\<lparr>conns := add_mset (address, port) (conns S)\<rparr>))"

definition legacy_conn_closed :: "string \<times> int \<Rightarrow> string option \<Rightarrow> ('g, 'k) server \<Rightarrow> ('g, 'k) server" where
  "legacy_conn_closed c cause S =
     note_down (fst c, snd c, Closed, legacy_closeReason cause) (S\<lparr>conns := conns S - {#c#}\<rparr>)"

definition legacy_echo_arrives :: "bool \<Rightarrow> int \<Rightarrow> header \<Rightarrow> string \<Rightarrow> ('g, bool) server \<Rightarrow> ('g, bool) server" where
  "legacy_echo_arrives probe port h remote S =
     (let address = legacy_addressOf remote in
      note_down (address, port, Connect, ''origin='' @ header_get h ''Origin'')
        (S\<lparr>arrived := add_mset (probe, address, port) (arrived S)\<rparr>))"

definition legacy_echo_admit ::
  "clock \<Rightarrow> bool request \<Rightarrow> (legacy_budgets, bool) server \<Rightarrow> int option \<times> (legacy_budgets, bool) server" where
  "legacy_echo_admit c r S =
     (case r of (probe, address, port) \<Rightarrow>
       let ((ok, why), g) = legacy_acquire c probe address (guard S);
           S = S\<lparr>guard := g, arrived := arrived S - {#r#}\<rparr>
       in if \<not> ok then (Some 503, note_down (address, port, Declined, why) S)
          else (None, S\<lparr>upgrading := add_mset r (upgrading S)\<rparr>))"

definition legacy_echo_upgrade ::
  "instant \<Rightarrow> string option \<Rightarrow> bool request \<Rightarrow> (legacy_budgets, bool) server \<Rightarrow> int option \<times> (legacy_budgets, bool) server" where
  "legacy_echo_upgrade now err r S =
     (case r of (probe, address, port) \<Rightarrow>
       let S = S\<lparr>upgrading := upgrading S - {#r#}\<rparr> in
       case err of
         Some why \<Rightarrow> (Some 500, note_down (address, port, Refused, why) (S\<lparr>guard := legacy_release address (guard S)\<rparr>))
       | None \<Rightarrow> (None, note_down (address, port, Session, '''')
           (S\<lparr>live := live S @ [(probe, open_session (serveWT_lifetime probe) now address)]\<rparr>)))"

lemma legacy_handlers:
  "legacy_conn_opened = conn_opened" "legacy_conn_closed = conn_closed" "legacy_echo_arrives = echo_arrives"
  "legacy_echo_admit = echo_admit legacy_ops" "legacy_echo_upgrade = echo_upgrade legacy_ops"
  by (simp_all add: fun_eq_iff legacy_conn_opened_def conn_opened_def legacy_conn_closed_def conn_closed_def
      legacy_closeReason_def closeReason_def legacy_addressOf_agrees legacy_echo_arrives_def echo_arrives_def
      legacy_echo_admit_def echo_admit_def legacy_echo_upgrade_def echo_upgrade_def Let_def split: option.split)

lemma legacy_echoStream_agrees: "legacy_echoStream pay script g = echoStream pay script g"
  by (induction pay script g rule: legacy_echoStream.induct)
    (auto split: prod.splits option.splits)

section \<open>The server's contract\<close>

lemma acquire_roll:
  "acquire c a b = (r, b') \<Longrightarrow> windowAt b' \<noteq> windowAt b \<Longrightarrow> echoed b' = 0"
  by (cases c) (auto simp: acquire_def Let_def roll_def split: if_splits)

lemma legacy_acquire_roll:
  "legacy_acquire c k a b = (r, b') \<Longrightarrow> legacy_windowAt b' \<noteq> legacy_windowAt b \<Longrightarrow> legacy_echoed b' = 0"
  by (cases c) (auto simp: legacy_acquire_def Let_def legacy_roll_def split: if_splits)

lemma acquire_meter:
  "acquire (t\<^sub>1, t\<^sub>2) a b = (r, b') \<Longrightarrow> t\<^sub>1 \<le> t\<^sub>2 \<Longrightarrow> windowAt b' = windowAt b \<Longrightarrow> echoed b' = echoed b"
  by (auto simp: acquire_def Let_def roll_def split: if_splits)

lemma legacy_acquire_meter:
  "legacy_acquire (t\<^sub>1, t\<^sub>2) k a b = (r, b') \<Longrightarrow> t\<^sub>1 \<le> t\<^sub>2 \<Longrightarrow> legacy_windowAt b' = legacy_windowAt b \<Longrightarrow>
    legacy_echoed b' = legacy_echoed b"
  by (auto simp: legacy_acquire_def Let_def legacy_roll_def split: if_splits)

interpretation main_server: echo_server main_ops
  "\<lambda>b. count_at (sessions b)" "\<lambda>b. dom (sessions b)" tidy_sessions "\<lambda>_. perAddressSessions" perAddressSessions
  echoed windowAt dailyEgressCeiling
proof (rule echo_server.intro, goal_cases)
  case 1 show ?case unfolding main_ops_sel by (rule main_ledger.slot_ledger_axioms)
next
  case 2 show ?case unfolding main_ops_sel by (rule main_meter.egress_meter_axioms)
next
  case 3 show ?case
    by unfold_locales (auto simp: sessionEchoBudget_def release_def intro: acquire_meter acquire_roll)
qed

interpretation legacy_server: echo_server legacy_ops
  "\<lambda>b. count_at (legacy_sessions b)" "\<lambda>b. dom (legacy_sessions b)" legacy_tidy legacy_cap legacy_perAddressSessions
  legacy_echoed legacy_windowAt legacy_dailyEgressCeiling
proof (rule echo_server.intro, goal_cases)
  case 1 show ?case unfolding legacy_ops_sel by (rule legacy_ledger.slot_ledger_axioms)
next
  case 2 show ?case unfolding legacy_ops_sel by (rule legacy_meter.egress_meter_axioms)
next
  case 3 show ?case
    by unfold_locales (auto simp: serveWT_budget_def legacy_constants legacy_release_def intro: legacy_acquire_meter legacy_acquire_roll)
qed

end
