(* ===== verification/Service_Props.thy ===== *)
theory Service_Props
  imports Service
begin

text \<open>
  The properties of the service: slots, budgets and echoes of every session that any run of
  either binary reaches, the release of the slot, the reasons sessions are closed with, and the
  journal of observations.
\<close>

section \<open>Concrete runs\<close>

text \<open>A request of a client at \<open>10.0.0.1\<close> that is admitted and upgraded at time 0.\<close>

definition sample_remote :: string where
  "sample_remote = ''10.0.0.1:5000''"

definition sample_request :: "'k \<Rightarrow> 'k request" where
  "sample_request k = (k, addressOf sample_remote, 443)"

definition sample_start :: "('k, 'g, 'l) guard_ops \<Rightarrow> 'k \<Rightarrow> 'g \<Rightarrow> ('g, 'k) server" where
  "sample_start G k g =
     snd (echo_upgrade G 0 None (sample_request k)
       (snd (echo_admit G (0, 0) (sample_request k) (echo_arrives k 443 Map.empty sample_remote (boot g)))))"

lemma sample_started:
  assumes "grab_op G (0, 0) k (addressOf sample_remote) g = ((True, why), g')"
  shows "server_run G (boot g) (sample_start G k g) \<and> guard (sample_start G k g) = g' \<and>
    live (sample_start G k g) = [(k, open_session (lifetime_of G k) 0 (addressOf sample_remote))]"
proof -
  let ?r = "sample_request k"
  let ?A = "echo_arrives k 443 Map.empty sample_remote (boot g)"
  let ?B = "snd (echo_admit G (0, 0) ?r ?A)"
  have a: "?r \<in># arrived ?A" "guard ?A = g" "live ?A = []"
    by (simp_all add: echo_arrives_def Let_def boot_def sample_request_def)
  have b: "?r \<in># upgrading ?B" "guard ?B = g'" "live ?B = []"
    using assms a by (simp_all add: echo_admit_def sample_request_def Let_def)
  have "server_step G (boot g) ?A" by (rule arrives)
  moreover have "server_step G ?A ?B" by (rule admits) (simp_all add: a)
  moreover have "server_step G ?B (sample_start G k g)" unfolding sample_start_def by (rule upgrades) (rule b)
  ultimately have "server_run G (boot g) (sample_start G k g)"
    unfolding server_run_def by (meson rtranclp.rtrancl_into_rtrancl rtranclp.rtrancl_refl)
  with b show ?thesis by (simp add: sample_start_def echo_upgrade_def sample_request_def Let_def)
qed

text \<open>The only session of a server runs on.\<close>

lemma session_runs_on:
  assumes "(session_step (budget_of G k) (charge_op G) (give_op G))\<^sup>*\<^sup>* (g, s) (g', s')"
    and "server_run G S\<^sub>0 S" and "guard S = g" and "live S = [(k, s)]"
  shows "\<exists>S'. server_run G S\<^sub>0 S' \<and> guard S' = g' \<and> live S' = [(k, s')]"
  using assms(1)
proof (induction "(g', s')" arbitrary: g' s' rule: rtranclp_induct)
  case base
  then show ?case using assms(2-4) by auto
next
  case (step y)
  obtain g\<^sub>1 s\<^sub>1 where y: "y = (g\<^sub>1, s\<^sub>1)" by fastforce
  obtain S\<^sub>1 where S\<^sub>1: "server_run G S\<^sub>0 S\<^sub>1" "guard S\<^sub>1 = g\<^sub>1" "live S\<^sub>1 = [(k, s\<^sub>1)]"
    using step.hyps(3) [OF y] by blast
  have "server_step G S\<^sub>1 (S\<^sub>1\<lparr>guard := g', live := (live S\<^sub>1)[0 := (k, s')]\<rparr>)"
    using step.hyps(2) S\<^sub>1(2,3) by (intro runs [where k = k and s = s\<^sub>1]) (simp_all add: y)
  with S\<^sub>1 show ?case
    by (intro exI [of _ "S\<^sub>1\<lparr>guard := g', live := (live S\<^sub>1)[0 := (k, s')]\<rparr>"])
      (auto simp: server_run_def intro: rtranclp.rtrancl_into_rtrancl)
qed

text \<open>A session that echoes one datagram, and one that reaches its lifetime.\<close>

definition ping :: bytes where
  "ping = ''ping''"

definition pinged :: "stage \<Rightarrow> bytes list \<Rightarrow> int \<Rightarrow> session \<Rightarrow> session" where
  "pinged st es n s = s\<lparr>tally := n, workers := [\<lparr>flow = DatagramFlow, stage = st, received = [ping], echoes = es\<rparr>]\<rparr>"

lemma sample_echo:
  assumes "charge (1, 1) 4 g = ((True, l), g')" and "4 \<le> budget" and "s = open_session lifetime t a"
  shows "(session_step budget charge give)\<^sup>*\<^sup>* (g, s) (g', pinged Reading [ping] 4 s)"
proof -
  have w: "session_step budget charge give (g\<^sub>1, s\<^sub>1) (g\<^sub>2, s\<^sub>1\<lparr>tally := n, workers := [w\<^sub>2]\<rparr>)"
    if "workers s\<^sub>1 = [w\<^sub>1]" "worker_step budget charge (g\<^sub>1, tally s\<^sub>1, stop_chan s\<^sub>1, w\<^sub>1) (g\<^sub>2, n, stop_chan s\<^sub>1, w\<^sub>2)"
    for g\<^sub>1 g\<^sub>2 s\<^sub>1 w\<^sub>1 w\<^sub>2 n
    using work [of 0 s\<^sub>1 budget charge g\<^sub>1 g\<^sub>2 n "stop_chan s\<^sub>1" w\<^sub>2 give] that by simp
  have l: "length ping = 4" by (simp add: ping_def)
  let ?w = "\<lambda>st es. \<lparr>flow = DatagramFlow, stage = st, received = [ping], echoes = es\<rparr>"
  have s: "workers s = [fresh_worker DatagramFlow]" "tally s = 0" by (simp_all add: assms(3) open_session_def)
  have "session_step budget charge give (g, s) (g, pinged (Counting ping False) [] 0 s)"
    using w [of s "fresh_worker DatagramFlow" g g 0 "?w (Counting ping False) []"]
      datagram [of "fresh_worker DatagramFlow" budget charge g 0 "stop_chan s" ping] s
    by (simp add: pinged_def fresh_worker_def)
  moreover have "session_step budget charge give (g, pinged (Counting ping False) [] 0 s) (g, pinged (Charging ping False) [] 4 s)"
    using w [of "pinged (Counting ping False) [] 0 s" "?w (Counting ping False) []" g g 4 "?w (Charging ping False) []"]
      count [of "?w (Counting ping False) []" ping False 4 0 budget charge g "stop_chan s"] l assms(2)
    by (simp add: pinged_def wrap64_id)
  moreover have "session_step budget charge give (g, pinged (Charging ping False) [] 4 s) (g', pinged (Sending ping False) [] 4 s)"
    using w [of "pinged (Charging ping False) [] 4 s" "?w (Charging ping False) []" g g' 4 "?w (Sending ping False) []"]
      worker_step.charge [of "?w (Charging ping False) []" ping False "(1, 1)" charge g True l g' budget 4 "stop_chan s"] l assms(1)
    by (simp add: pinged_def)
  moreover have "session_step budget charge give (g', pinged (Sending ping False) [] 4 s) (g', pinged Reading [ping] 4 s)"
    using w [of "pinged (Sending ping False) [] 4 s" "?w (Sending ping False) []" g' g' 4 "?w Reading [ping]"]
      datagram_send [of "?w (Sending ping False) []" ping False budget charge g' 4 "stop_chan s" True]
    by (simp add: pinged_def)
  ultimately show ?thesis by (meson rtranclp.rtrancl_into_rtrancl rtranclp.rtrancl_refl)
qed

lemma main_acquire_sample: "acquire (0, 0) a (limits 0) = ((True, ''''), (limits 0)\<lparr>sessions := [a \<mapsto> 1]\<rparr>)"
  by (simp add: acquire_def Let_def roll_def limits_def constants)

lemma legacy_acquire_sample:
  "legacy_acquire (0, 0) k a (legacy_limits 0) = ((True, ''''), (legacy_limits 0)\<lparr>legacy_sessions := [a \<mapsto> 1]\<rparr>)"
  by (simp add: legacy_acquire_def Let_def legacy_roll_def legacy_limits_def legacy_constants)

lemma main_spend_sample:
  "spend (1, 1) 4 ((limits 0)\<lparr>sessions := m\<rparr>) = ((True, []), (limits 0)\<lparr>sessions := m, echoed := 4\<rparr>)"
  by (simp add: spend_def Let_def roll_def limits_def constants wrap64_id)

lemma legacy_spend_sample:
  "legacy_spend (1, 1) 4 ((legacy_limits 0)\<lparr>legacy_sessions := m\<rparr>) =
    ((True, []), (legacy_limits 0)\<lparr>legacy_sessions := m, legacy_echoed := 4\<rparr>)"
  by (simp add: legacy_spend_def Let_def legacy_roll_def legacy_limits_def legacy_constants wrap64_id)

lemma main_sample_run:
  "\<exists>S. server_run main_ops (boot (limits 0)) S \<and>
    guard S = (limits 0)\<lparr>sessions := [addressOf sample_remote \<mapsto> 1], echoed := 4\<rparr> \<and>
    live S = [((), pinged Reading [ping] 4 (open_session sessionLifetime 0 (addressOf sample_remote)))]"
proof -
  have st: "grab_op main_ops (0, 0) () (addressOf sample_remote) (limits 0) =
      ((True, ''''), (limits 0)\<lparr>sessions := [addressOf sample_remote \<mapsto> 1]\<rparr>)"
    by (simp add: main_acquire_sample)
  have b: "4 \<le> sessionEchoBudget" by (simp add: sessionEchoBudget_def)
  have "(session_step sessionEchoBudget spend release)\<^sup>*\<^sup>*
      ((limits 0)\<lparr>sessions := [addressOf sample_remote \<mapsto> 1]\<rparr>, open_session sessionLifetime 0 (addressOf sample_remote))
      ((limits 0)\<lparr>sessions := [addressOf sample_remote \<mapsto> 1], echoed := 4\<rparr>,
       pinged Reading [ping] 4 (open_session sessionLifetime 0 (addressOf sample_remote)))"
    by (rule sample_echo, rule main_spend_sample, rule b, rule refl)
  from session_runs_on [of main_ops "()", unfolded main_ops_sel, OF this] sample_started [OF st]
  show ?thesis by auto
qed

lemma legacy_sample_run:
  "\<exists>S. server_run legacy_ops (boot (legacy_limits 0)) S \<and>
    guard S = (legacy_limits 0)\<lparr>legacy_sessions := [addressOf sample_remote \<mapsto> 1], legacy_echoed := 4\<rparr> \<and>
    live S = [(k, pinged Reading [ping] 4 (open_session (serveWT_lifetime k) 0 (addressOf sample_remote)))]"
proof -
  have st: "grab_op legacy_ops (0, 0) k (addressOf sample_remote) (legacy_limits 0) =
      ((True, ''''), (legacy_limits 0)\<lparr>legacy_sessions := [addressOf sample_remote \<mapsto> 1]\<rparr>)"
    by (simp add: legacy_acquire_sample)
  have b: "4 \<le> serveWT_budget k" by (simp add: serveWT_budget_def legacy_constants)
  have "(session_step (serveWT_budget k) legacy_spend legacy_release)\<^sup>*\<^sup>*
      ((legacy_limits 0)\<lparr>legacy_sessions := [addressOf sample_remote \<mapsto> 1]\<rparr>,
       open_session (serveWT_lifetime k) 0 (addressOf sample_remote))
      ((legacy_limits 0)\<lparr>legacy_sessions := [addressOf sample_remote \<mapsto> 1], legacy_echoed := 4\<rparr>,
       pinged Reading [ping] 4 (open_session (serveWT_lifetime k) 0 (addressOf sample_remote)))"
    by (rule sample_echo, rule legacy_spend_sample, rule b, rule refl)
  from session_runs_on [of legacy_ops k, unfolded legacy_ops_sel, OF this] sample_started [OF st]
  show ?thesis by auto
qed

lemma pinged_accounts: "total offered (pinged Reading [ping] 4 s) = 4" "total sent (pinged Reading [ping] 4 s) = 4"
  by (simp_all add: pinged_def total_def offered_def sent_def bytes_in_def ping_def)

section \<open>Slots\<close>

text \<open>
  C1: However connections, requests, upgrades and sessions interleave, the main binary's count
  of an address is exactly its handlers waiting for an upgrade plus its sessions whose
  supervisor has not released them, never more than four, and addresses with neither take no
  room in the map.
\<close>

theorem main_slots:
  assumes "server_run main_ops (boot (limits t)) S"
  shows "count_at (sessions (guard S)) a = slots_of (tickets S) a \<and>
    slots_of (tickets S) a \<le> perAddressSessions \<and> dom (sessions (guard S)) = snd ` set_mset (tickets S)"
  using main_server.slots [OF assms tidy_limits, of a] by (simp add: limits_def)

theorem main_slots_witness:
  "\<exists>S. server_run main_ops (boot (limits 0)) S \<and> dom (sessions (guard S)) = {addressOf sample_remote} \<and>
    slots_of (tickets S) (addressOf sample_remote) = 1"
proof -
  obtain S where S: "server_run main_ops (boot (limits 0)) S"
    "guard S = (limits 0)\<lparr>sessions := [addressOf sample_remote \<mapsto> 1], echoed := 4\<rparr>"
    using main_sample_run by blast
  from main_slots [OF S(1), of "addressOf sample_remote"] S show ?thesis
    by (intro exI [of _ S]) (simp add: limits_def)
qed

text \<open>
  C14: In every run of the legacy binary its counts are its waiting handlers and unreleased
  sessions, at most four of an address, at most one of them on the probe's listener.
\<close>

theorem legacy_slots:
  assumes "server_run legacy_ops (boot (legacy_limits t)) S"
  shows "count_at (legacy_sessions (guard S)) a = slots_of (tickets S) a \<and>
    slots_of (tickets S) a \<le> legacy_perAddressSessions \<and> int (count (tickets S) (True, a)) \<le> probeSessions"
  using legacy_server.slots [OF assms, of a True] tidy_limits [of t]
  by (simp add: main_of_limits legacy_cap_def) (simp add: legacy_limits_def)

theorem legacy_slots_witness:
  "\<exists>S. server_run legacy_ops (boot (legacy_limits 0)) S \<and> slots_of (tickets S) (addressOf sample_remote) = 1"
proof -
  obtain S where S: "server_run legacy_ops (boot (legacy_limits 0)) S"
    "guard S = (legacy_limits 0)\<lparr>legacy_sessions := [addressOf sample_remote \<mapsto> 1], legacy_echoed := 4\<rparr>"
    using legacy_sample_run [of True] by blast
  from legacy_slots [OF S(1), of "addressOf sample_remote"] S show ?thesis by auto
qed

section \<open>Budgets and echoes\<close>

text \<open>
  C5: No session of the main binary is ever sent more than its budget of 1 MiB, over all its
  streams and datagrams together, as long as the bytes it offers in all stay below \<open>2^63\<close>.
\<close>

theorem session_echo_bounded:
  assumes "server_run main_ops (boot (limits t)) S" and "(k, s) \<in> set (live S)" and "total offered s < 2 ^ 63"
  shows "total sent s \<le> sessionEchoBudget"
proof -
  have "session_ok (budget_of main_ops k) s"
    by (rule server_run_sessions [OF assms(1) main_server.budgets_nonneg assms(2)])
  with assms(3) show ?thesis by (simp add: session_ok_def accounted_sent)
qed

theorem session_echo_bounded_witness:
  "\<exists>S s. server_run main_ops (boot (limits 0)) S \<and> ((), s) \<in> set (live S) \<and> total sent s = 4 \<and>
    total sent s \<le> sessionEchoBudget"
proof -
  let ?s = "pinged Reading [ping] 4 (open_session sessionLifetime 0 (addressOf sample_remote))"
  obtain S where S: "server_run main_ops (boot (limits 0)) S" "live S = [((), ?s)]"
    using main_sample_run by blast
  have "total sent ?s \<le> sessionEchoBudget"
    by (rule session_echo_bounded [OF S(1), of "()"]) (simp_all add: S(2) pinged_accounts)
  with S show ?thesis by (auto simp: pinged_accounts)
qed

text \<open>
  On the legacy binary a session is sent at most 1 MiB, and one on the probe's listener at
  most 64 MiB, which is what the probe needs to cross the 16 MiB line.
\<close>

lemma legacy_session_echo_bounded:
  assumes "server_run legacy_ops (boot (legacy_limits t)) S" and "(probe, s) \<in> set (live S)"
    and "total offered s < 2 ^ 63"
  shows "total sent s \<le> (if probe then 64 * 2 ^ 20 else 2 ^ 20)"
proof -
  have "session_ok (budget_of legacy_ops probe) s"
    by (rule server_run_sessions [OF assms(1) legacy_server.budgets_nonneg assms(2)])
  with assms(3) accounted_sent [of "serveWT_budget probe" s] show ?thesis
    by (auto simp: session_ok_def serveWT_budget_def legacy_constants)
qed

text \<open>
  C8: What a session of the main binary sends is what it received: on a stream a prefix of the
  bytes read, in order, and all of them whenever the loop is back in its read; on datagrams
  whole datagrams in order, some possibly dropped.
\<close>

theorem echo_faithful:
  assumes "server_run main_ops (boot (limits t)) S" and "(k, s) \<in> set (live S)" and "w \<in> set (workers s)"
  shows "case flow w of
      StreamFlow \<Rightarrow> prefix (concat (echoes w)) (concat (received w)) \<and> (stage w \<noteq> Reading \<or> echoes w = received w)
    | DatagramFlow \<Rightarrow> subseq (echoes w) (received w)"
proof -
  have "session_ok (budget_of main_ops k) s"
    by (rule server_run_sessions [OF assms(1) main_server.budgets_nonneg assms(2)])
  then have "echo_inv w" using assms(3) by (simp add: session_ok_def echo_ok_def)
  from echo_inv_exact [OF this] show ?thesis by (auto split: flow.split)
qed

theorem echo_faithful_witness:
  "\<exists>S s w. server_run main_ops (boot (limits 0)) S \<and> ((), s) \<in> set (live S) \<and> w \<in> set (workers s) \<and>
    received w = [ping] \<and> subseq (echoes w) (received w)"
proof -
  let ?s = "pinged Reading [ping] 4 (open_session sessionLifetime 0 (addressOf sample_remote))"
  let ?w = "\<lparr>flow = DatagramFlow, stage = Reading, received = [ping], echoes = [ping]\<rparr>"
  obtain S where S: "server_run main_ops (boot (limits 0)) S" "live S = [((), ?s)]"
    using main_sample_run by blast
  have w: "?w \<in> set (workers ?s)" by (simp add: pinged_def)
  have "subseq (echoes ?w) (received ?w)"
    using echo_faithful [OF S(1) _ w, of "()"] S(2) by simp
  with S w show ?thesis by (intro exI [of _ S] exI [of _ ?s] exI [of _ ?w]) simp
qed

section \<open>The end of a session\<close>

text \<open>
  C15: A session of the main binary is closed for the reason it says: for its budget only when
  it counted more than the budget, for its lifetime only when the deadline had passed, and for
  the daily ceiling only when at some moment of the run, with the session already live, the
  guard's counter had reached the ceiling. There is no other reason.
\<close>

theorem close_reason_true:
  assumes "server_run main_ops (boot (limits t)) S" and "i < length (live S)" and "live S ! i = (k, s)"
    and "total offered s < 2 ^ 63" and "close_reason s = Some why"
  shows "why = budget_reason \<and> sessionEchoBudget < tally s \<or>
    why = ceiling_reason \<and> (\<exists>S\<^sub>0. server_run main_ops (boot (limits t)) S\<^sub>0 \<and> server_run main_ops S\<^sub>0 S \<and>
      i < length (live S\<^sub>0) \<and> dailyEgressCeiling \<le> echoed (guard S\<^sub>0)) \<or>
    why = lifetime_reason \<and> expires s \<le> wall s"
proof -
  have "(k, s) \<in> set (live S)" using assms(2,3) by (metis nth_mem)
  then have "session_ok (budget_of main_ops k) s"
    by (rule server_run_sessions [OF assms(1) main_server.budgets_nonneg])
  with assms(4,5) have r: "reason_true sessionEchoBudget s why" by (simp add: session_ok_def reasons_ok_def)
  have "says_ceiling (snd (live S ! i))" if "why = ceiling_reason" using assms(3,5) that by (simp add: says_ceiling_def)
  with r main_server.ceiling_reached [OF assms(1,2)] show ?thesis by (auto simp: reason_true_def)
qed

definition lapsed :: "session \<Rightarrow> session" where
  "lapsed s = s\<lparr>wall := expires s, phase := Cancelling, over := True, close_reason := Some lifetime_reason\<rparr>"

lemma sample_lapse:
  assumes "wall s \<le> expires s" and "phase s = Selecting"
  shows "(session_step budget charge give)\<^sup>*\<^sup>* (g, s) (g, lapsed s)"
proof -
  have "session_step budget charge give (g, s) (g, s\<lparr>wall := expires s\<rparr>)" using assms(1) by (rule tick)
  moreover have "session_step budget charge give (g, s\<lparr>wall := expires s\<rparr>)
      (g, s\<lparr>wall := expires s, phase := Closing lifetime_reason\<rparr>)"
    using select_deadline [of "s\<lparr>wall := expires s\<rparr>" give g] assms(2) by (intro supervise) simp
  moreover have "session_step budget charge give (g, s\<lparr>wall := expires s, phase := Closing lifetime_reason\<rparr>) (g, lapsed s)"
    using close_session [of "s\<lparr>wall := expires s, phase := Closing lifetime_reason\<rparr>" lifetime_reason give g]
    by (intro supervise) (simp add: lapsed_def)
  ultimately show ?thesis by (meson rtranclp.rtrancl_into_rtrancl rtranclp.rtrancl_refl)
qed

theorem close_reason_true_witness:
  "\<exists>S s. server_run main_ops (boot (limits 0)) S \<and> ((), s) \<in> set (live S) \<and>
    close_reason s = Some lifetime_reason \<and> expires s \<le> wall s"
proof -
  let ?s = "pinged Reading [ping] 4 (open_session sessionLifetime 0 (addressOf sample_remote))"
  obtain S where S: "server_run main_ops (boot (limits 0)) S" "live S = [((), ?s)]"
    using main_sample_run by blast
  have "(session_step sessionEchoBudget spend release)\<^sup>*\<^sup>* (guard S, ?s) (guard S, lapsed ?s)"
    by (rule sample_lapse) (simp_all add: pinged_def open_session_def sessionLifetime_def)
  from session_runs_on [of main_ops "()", unfolded main_ops_sel, OF this S(1) refl S(2)]
  obtain S' where S': "server_run main_ops (boot (limits 0)) S'" "live S' = [((), lapsed ?s)]" by blast
  have "total offered (lapsed ?s) = 4"
    using pinged_accounts(1) [of "open_session sessionLifetime 0 (addressOf sample_remote)"]
    by (simp add: lapsed_def total_def)
  then have "expires (lapsed ?s) \<le> wall (lapsed ?s)"
    using close_reason_true [OF S'(1), of 0 "()" "lapsed ?s" lifetime_reason] by (simp add: S'(2) lapsed_def)
  with S' show ?thesis by (intro exI [of _ S'] exI [of _ "lapsed ?s"]) (simp add: lapsed_def)
qed

text \<open>
  C16: A session that has counted more than its budget is on its way out: its supervisor has
  left the select, or a reason lies in the channel, or the loop that went over is about to
  put one there. No later refusal, timeout or departure of the peer makes it stay.
\<close>

theorem overspend_stops:
  assumes "server_run main_ops (boot (limits t)) S" and "(k, s) \<in> set (live S)" and "sessionEchoBudget < tally s"
  shows "phase s \<noteq> Selecting \<or> stop_chan s \<noteq> None \<or>
    (\<exists>w \<in> set (workers s). \<exists>why. stage w = Stopping why)"
proof -
  have "session_ok (budget_of main_ops k) s"
    by (rule server_run_sessions [OF assms(1) main_server.budgets_nonneg assms(2)])
  with assms(3) show ?thesis by (simp add: session_ok_def stop_due_def)
qed

lemma sample_overspend:
  assumes "budget < int (length d)" and "int (length d) < 2 ^ 63" and "s = open_session lifetime t a"
  shows "(session_step budget charge give)\<^sup>*\<^sup>* (g, s)
    (g, s\<lparr>tally := int (length d),
      workers := [\<lparr>flow = DatagramFlow, stage = Stopping budget_reason, received = [d], echoes = []\<rparr>]\<rparr>)"
proof -
  have s: "workers s = [fresh_worker DatagramFlow]" "tally s = 0" by (simp_all add: assms(3) open_session_def)
  let ?w = "\<lambda>st. \<lparr>flow = DatagramFlow, stage = st, received = [d], echoes = []\<rparr>"
  have "session_step budget charge give (g, s) (g, s\<lparr>tally := 0, workers := [?w (Counting d False)]\<rparr>)"
    using work [of 0 s budget charge g g 0 "stop_chan s" "?w (Counting d False)" give]
      datagram [of "fresh_worker DatagramFlow" budget charge g 0 "stop_chan s" d] s
    by (simp add: fresh_worker_def)
  moreover have "session_step budget charge give (g, s\<lparr>tally := 0, workers := [?w (Counting d False)]\<rparr>)
      (g, s\<lparr>tally := int (length d), workers := [?w (Stopping budget_reason)]\<rparr>)"
    using work [of 0 "s\<lparr>tally := 0, workers := [?w (Counting d False)]\<rparr>" budget charge g g "int (length d)" "stop_chan s"
        "?w (Stopping budget_reason)" give]
      count [of "?w (Counting d False)" d False "int (length d)" 0 budget charge g "stop_chan s"] assms(1,2)
    by (simp add: wrap64_id)
  ultimately show ?thesis by (meson rtranclp.rtrancl_into_rtrancl rtranclp.rtrancl_refl)
qed

theorem overspend_stops_witness:
  "\<exists>S s. server_run main_ops (boot (limits 0)) S \<and> ((), s) \<in> set (live S) \<and> sessionEchoBudget < tally s \<and>
    (phase s \<noteq> Selecting \<or> stop_chan s \<noteq> None \<or> (\<exists>w \<in> set (workers s). \<exists>why. stage w = Stopping why))"
proof -
  let ?d = "replicate (2 ^ 20 + 1) CHR ''x''" and ?o = "open_session sessionLifetime 0 (addressOf sample_remote)"
  let ?s = "?o\<lparr>tally := int (length ?d),
      workers := [\<lparr>flow = DatagramFlow, stage = Stopping budget_reason, received = [?d], echoes = []\<rparr>]\<rparr>"
  have st: "grab_op main_ops (0, 0) () (addressOf sample_remote) (limits 0) =
      ((True, ''''), (limits 0)\<lparr>sessions := [addressOf sample_remote \<mapsto> 1]\<rparr>)"
    by (simp add: main_acquire_sample)
  have "(session_step sessionEchoBudget spend release)\<^sup>*\<^sup>* (g, ?o) (g, ?s)" for g
    by (rule sample_overspend) (simp_all add: sessionEchoBudget_def)
  from session_runs_on [of main_ops "()", unfolded main_ops_sel, OF this conjunct1 [OF sample_started [OF st]] refl]
    sample_started [OF st]
  obtain S where S: "server_run main_ops (boot (limits 0)) S" "live S = [((), ?s)]" by auto
  have "sessionEchoBudget < tally ?s" by (simp add: sessionEchoBudget_def)
  with overspend_stops [OF S(1) _ this, of "()"] S show ?thesis by (intro exI [of _ S] exI [of _ ?s]) simp
qed

text \<open>
  C9: The supervisor frees the slot once and for all: as soon as one of its three channels is
  ready it needs at most four statements to release its address's slot, whatever the other
  goroutines do they cannot take the readiness away, and once it has released it never
  releases again.
\<close>

theorem slot_freed:
  assumes "roused s" and "phase s \<noteq> Released"
  shows "(\<exists>n \<le> 4. \<exists>s'. (supervisor_step release ^^ n) (b, s) (release (peer_key s) b, s') \<and> phase s' = Released \<and>
      \<not> (\<exists>y. supervisor_step release (b', s') y)) \<and>
    (\<forall>b' s'. serveEcho (b, s) (b', s') \<longrightarrow> roused s' \<or> phase s' = Released)"
proof (intro conjI allI impI)
  obtain n s' where n: "n \<le> statements_left (phase s)"
      "(supervisor_step release ^^ n) (b, s) (release (peer_key s) b, s')" "phase s' = Released"
    using supervisor_done [OF assms, of release b] by blast
  moreover have "statements_left (phase s) \<le> 4" by (simp add: statements_left_def split: phase.split)
  moreover have "\<not> (\<exists>y. supervisor_step release (b', s') y)"
    using n(3) by (auto elim: supervisor_step.cases)
  ultimately show "\<exists>n \<le> 4. \<exists>s'. (supervisor_step release ^^ n) (b, s) (release (peer_key s) b, s') \<and> phase s' = Released \<and>
      \<not> (\<exists>y. supervisor_step release (b', s') y)" by (meson le_trans)
next
  fix b' s' assume "serveEcho (b, s) (b', s')"
  from session_step_phase [OF this [unfolded serveEcho_def]] assms(1)
  show "roused s' \<or> phase s' = Released"
    by (auto elim!: supervisor_stepE simp: roused_def)
qed

theorem slot_freed_witness:
  "\<exists>n \<le> 4. \<exists>s'. (supervisor_step release ^^ n) ((limits 0)\<lparr>sessions := [''a'' \<mapsto> 1]\<rparr>, (open_session 5 0 ''a'')\<lparr>over := True\<rparr>)
      (limits 0, s') \<and> phase s' = Released"
proof -
  let ?s = "(open_session 5 0 ''a'')\<lparr>over := True\<rparr>" and ?b = "(limits 0)\<lparr>sessions := [''a'' \<mapsto> 1]\<rparr>"
  have k: "release (peer_key ?s) ?b = limits 0" by (simp add: release_def limits_def open_session_def)
  have r: "roused ?s" "phase ?s \<noteq> Released" by (simp_all add: roused_def open_session_def)
  from slot_freed [OF r, of ?b ?b, unfolded k] show ?thesis by blast
qed

section \<open>Egress of a window\<close>

definition same_window :: "(budgets, unit) server \<Rightarrow> (budgets, unit) server \<Rightarrow> bool" where
  "same_window S S' \<longleftrightarrow> server_step main_ops S S' \<and> windowAt (guard S') = windowAt (guard S)"

text \<open>A step that rolls the window, and what a session's loops have been granted and not sent yet.\<close>

definition opens_window :: "(budgets, unit) server \<Rightarrow> (budgets, unit) server \<Rightarrow> bool" where
  "opens_window S S' \<longleftrightarrow> server_step main_ops S S' \<and> windowAt (guard S') \<noteq> windowAt (guard S)"

lemma grand_paid: "grand paid S = grand sent S + grand in_hand S"
proof -
  have "total paid s = total sent s + total in_hand s" for s
  proof -
    have e: "paid = (\<lambda>w. sent w + in_hand w)" by (simp add: fun_eq_iff paid_def in_hand_def)
    show ?thesis unfolding total_def e by (rule sum_list_addf)
  qed
  then show ?thesis unfolding grand_def split_beta by (simp only: sum_list_addf)
qed

text \<open>Every state of a run lies in a window that opened with the start or at some step before.\<close>

lemma window_of:
  assumes "server_run main_ops (boot (limits t)) S'"
  shows "\<exists>S\<^sub>0 S. server_run main_ops (boot (limits t)) S\<^sub>0 \<and> (S = S\<^sub>0 \<and> S\<^sub>0 = boot (limits t) \<or> opens_window S\<^sub>0 S) \<and>
    same_window\<^sup>*\<^sup>* S S'"
  using assms unfolding server_run_def
proof (induction rule: rtranclp_induct)
  case (step S' S'')
  show ?case
  proof (cases "windowAt (guard S'') = windowAt (guard S')")
    case True
    with step.hyps(2) have "same_window S' S''" by (simp add: same_window_def)
    with step.IH show ?thesis by (blast intro: rtranclp.rtrancl_into_rtrancl)
  next
    case False
    with step.hyps show ?thesis by (blast intro: opens_window_def [THEN iffD2])
  qed
qed blast

text \<open>
  C6: In any window of the main binary, the first and every later one, all its sessions together
  are sent less than the daily ceiling of 2 GiB from the step that opened the window on, plus
  what had been granted before that step and was still to be sent; with the first window, which
  opens with nothing granted, the ceiling alone is the bound. However many sessions there are
  and however their loops, admissions and releases interleave, as long as the bytes offered in
  all stay below \<open>2^63\<close>.
\<close>

theorem service_window_egress:
  assumes "server_run main_ops (boot (limits t)) S\<^sub>0" and "S = S\<^sub>0 \<and> S\<^sub>0 = boot (limits t) \<or> opens_window S\<^sub>0 S"
    and "same_window\<^sup>*\<^sup>* S S'" and "grand offered S' < 2 ^ 63"
  shows "grand sent S' - grand sent S\<^sub>0 < dailyEgressCeiling + grand in_hand S\<^sub>0 \<and>
    (S\<^sub>0 = boot (limits t) \<longrightarrow> grand sent S' < dailyEgressCeiling)"
proof -
  have w: "main_server.window_step\<^sup>*\<^sup>* S S'"
  proof -
    have "same_window = main_server.window_step"
      by (simp add: fun_eq_iff same_window_def main_server.window_step_def)
    with assms(3) show ?thesis by simp
  qed
  have e: "echoed (limits t) = 0" by (simp add: limits_def)
  have b: "grand f (boot (limits t) :: (budgets, unit) server) = 0" for f by (simp add: grand_def boot_def)
  have "grand paid S' - grand paid S\<^sub>0 < dailyEgressCeiling"
    using assms(2)
  proof
    assume s: "S = S\<^sub>0 \<and> S\<^sub>0 = boot (limits t)"
    with w have "main_server.window_step\<^sup>*\<^sup>* (boot (limits t)) S'" by simp
    from main_server.window_egress [OF this e assms(4)] s b show ?thesis by simp
  next
    assume "opens_window S\<^sub>0 S"
    then show ?thesis
      using main_server.later_window_egress [OF assms(1) e _ _ w assms(4)] by (simp add: opens_window_def)
  qed
  moreover have "grand sent S' \<le> grand paid S'" by (rule grand_mono) (rule paid_sent)
  ultimately show ?thesis using b by (auto simp: grand_paid)
qed

text \<open>The window's opening only moves forward, so a run that ends in the first window never left it.\<close>

lemma acquire_windowAt: "fst c \<le> snd c \<Longrightarrow> acquire c a b = (r, b') \<Longrightarrow> windowAt b \<le> windowAt b'"
  by (cases c) (auto simp: acquire_def Let_def roll_def split: if_splits)

lemma spend_windowAt: "fst c \<le> snd c \<Longrightarrow> spend c n b = (r, b') \<Longrightarrow> windowAt b \<le> windowAt b'"
  by (cases c) (auto simp: spend_def Let_def roll_def split: if_splits)

lemma session_step_windowAt:
  assumes "session_step budget spend release (b, s) (b', s')"
  shows "windowAt b \<le> windowAt b'"
  using assms
proof (cases rule: session_stepE)
  case (work i n c w)
  from work(3) show ?thesis by (cases rule: worker_stepE) (auto dest: spend_windowAt)
next
  case supervise
  then show ?thesis by (cases rule: supervisor_stepE) (simp_all add: release_def)
qed auto

lemma server_step_windowAt:
  assumes "server_step main_ops S S'"
  shows "windowAt (guard S) \<le> windowAt (guard S')"
  using assms
proof (cases rule: server_stepE)
  case (admits r c)
  obtain k a p where r: "r = (k, a, p)" by (metis prod.collapse)
  obtain x g where g: "acquire c a (guard S) = (x, g)" by fastforce
  then have "guard S' = g" using admits(1) by (cases x) (simp add: echo_admit_def r Let_def)
  with acquire_windowAt [OF admits(3) g] show ?thesis by simp
next
  case (upgrades r now err)
  obtain k a p where r: "r = (k, a, p)" by (metis prod.collapse)
  have "windowAt (release a (guard S)) = windowAt (guard S)" by (simp add: release_def)
  then show ?thesis using upgrades(1) by (cases err) (simp_all add: echo_upgrade_def r)
next
  case (runs i k s g s')
  then show ?thesis by (auto intro: session_step_windowAt)
qed (simp_all add: conn_opened_def conn_closed_def echo_arrives_def Let_def)

lemma same_window_run:
  assumes "server_run main_ops S\<^sub>0 S" and "windowAt (guard S) = windowAt (guard S\<^sub>0)"
  shows "same_window\<^sup>*\<^sup>* S\<^sub>0 S"
proof -
  have "windowAt (guard S\<^sub>0) \<le> windowAt (guard S) \<and>
      (windowAt (guard S) = windowAt (guard S\<^sub>0) \<longrightarrow> same_window\<^sup>*\<^sup>* S\<^sub>0 S)"
    using assms(1) unfolding server_run_def
  proof (induction rule: rtranclp_induct)
    case (step S S')
    then show ?case using server_step_windowAt [OF step.hyps(2)]
      by (auto simp: same_window_def intro: rtranclp.rtrancl_into_rtrancl)
  qed simp
  with assms(2) show ?thesis by blast
qed

theorem service_window_egress_witness:
  "\<exists>S\<^sub>0 S. server_run main_ops (boot (limits 0)) S\<^sub>0 \<and> opens_window S\<^sub>0 S \<and> grand sent S\<^sub>0 = 4 \<and>
    grand sent S - grand sent S\<^sub>0 < dailyEgressCeiling + grand in_hand S\<^sub>0"
proof -
  from main_sample_run obtain S where S: "server_run main_ops (boot (limits 0)) S"
      "guard S = (limits 0)\<lparr>sessions := [addressOf sample_remote \<mapsto> 1], echoed := 4\<rparr>"
      "live S = [((), pinged Reading [ping] 4 (open_session sessionLifetime 0 (addressOf sample_remote)))]" by blast
  let ?r = "((), addressOf sample_remote, 443)"
  let ?S\<^sub>0 = "echo_arrives () 443 Map.empty sample_remote S"
  let ?S = "snd (echo_admit main_ops (day, day) ?r ?S\<^sub>0)"
  have f: "live ?S\<^sub>0 = live S" "guard ?S\<^sub>0 = guard S" "?r \<in># arrived ?S\<^sub>0" by (simp_all add: echo_arrives_def Let_def)
  have run: "server_run main_ops (boot (limits 0)) ?S\<^sub>0"
    using S(1) unfolding server_run_def by (rule rtranclp.rtrancl_into_rtrancl) (rule arrives)
  have step: "server_step main_ops ?S\<^sub>0 ?S" by (rule admits [OF f(3)]) simp
  have "fst (acquire (day, day) a (guard S)) = (True, '''') \<and> windowAt (snd (acquire (day, day) a (guard S))) = day"
    if "a = addressOf sample_remote" for a
    by (simp add: that acquire_def roll_def S(2) limits_def dailyEgressCeiling_def perAddressSessions_def count_at_def)
  then have g: "windowAt (guard ?S) = day" "live ?S = live S"
    by (cases "acquire (day, day) (addressOf sample_remote) (guard S)"; simp add: echo_admit_def f)+
  have open_w: "opens_window ?S\<^sub>0 ?S" using step g(1) by (simp add: opens_window_def f S(2) limits_def)
  have a: "grand sent ?S\<^sub>0 = 4" "grand offered ?S = 4"
    unfolding grand_def f(1) g(2) S(3) by (simp_all add: pinged_accounts)
  have "grand sent ?S - grand sent ?S\<^sub>0 < dailyEgressCeiling + grand in_hand ?S\<^sub>0"
    using service_window_egress [OF run disjI2 [OF open_w] rtranclp.rtrancl_refl] a(2) by simp
  with run open_w a(1) show ?thesis by blast
qed

section \<open>The journal\<close>

text \<open>
  C17: Every request is noted once when it arrives and once when it is decided: for each address
  and port the connects are the requests still in flight plus the declined, refused and
  accepted ones, and the QUIC connections noted are those still open plus those noted closed.
\<close>

theorem journal_balanced:
  assumes "server_run main_ops (boot (limits t)) S"
  shows "jots a p Connect S = waiting a p (arrived S) + waiting a p (upgrading S) +
      jots a p Declined S + jots a p Refused S + jots a p Session S \<and>
    jots a p QUIC S = count (conns S) (a, p) + jots a p Closed S"
  using journal_ok_run [OF assms, of a p] by (simp add: journal_ok_def)

theorem journal_balanced_witness:
  "\<exists>S. server_run main_ops (boot (limits 0)) S \<and> jots (addressOf sample_remote) 443 Connect S = 1 \<and>
    jots (addressOf sample_remote) 443 Session S = 1"
proof -
  let ?S = "sample_start main_ops () (limits 0)" and ?a = "addressOf sample_remote"
  have st: "grab_op main_ops (0, 0) () ?a (limits 0) = ((True, ''''), (limits 0)\<lparr>sessions := [?a \<mapsto> 1]\<rparr>)"
    by (simp add: main_acquire_sample)
  have S: "server_run main_ops (boot (limits 0)) ?S" using sample_started [OF st] by blast
  have j: "jots ?a 443 k ?S = (if k = Connect \<or> k = Session then 1 else 0)" for k
    using st by (simp add: sample_start_def sample_request_def echo_arrives_def echo_admit_def echo_upgrade_def Let_def
        boot_def jots_def note_down_def)
  show ?thesis using journal_balanced [OF S, of ?a 443] S j [of Connect] j [of Session]
    by (intro exI [of _ ?S]) simp
qed

section \<open>One stream\<close>

lemma echoStream_prefix:
  "prefix (fst (echoStream pay script g)) (concat (map fst script)) \<and>
    (\<not> fst (snd (echoStream pay script g)) \<longrightarrow> fst (echoStream pay script g) = concat (map fst script))"
proof (induction script arbitrary: g)
  case (Cons r script)
  obtain d err fault where r: "r = (d, err, fault)" by (metis prod.collapse)
  obtain ok g' where p: "pay (int (length d)) g = (ok, g')" by fastforce
  obtain ws c g'' where e: "echoStream pay script g' = (ws, c, g'')" by (metis prod.collapse)
  show ?case
    using Cons.IH [of g] Cons.IH [of g'] p e
    by (cases fault) (auto simp: r take_is_prefix intro: prefix_append [THEN iffD2])
qed simp

lemma echoStream_whole:
  assumes "\<And>n g. fst (pay n g)" and "\<And>d err fault. (d, err, fault) \<in> set reads \<Longrightarrow> \<not> err \<and> fault = None"
  shows "fst (echoStream pay (reads @ [(rest, True, None)]) g) = concat (map fst reads) @ rest \<and>
    fst (snd (echoStream pay (reads @ [(rest, True, None)]) g))"
  using assms(2)
proof (induction reads arbitrary: g)
  case Nil
  obtain ok g' where p: "pay (int (length rest)) g = (ok, g')" by fastforce
  with assms(1) [of "int (length rest)" g] show ?case by simp
next
  case (Cons r reads)
  obtain d err fault where r: "r = (d, err, fault)" by (metis prod.collapse)
  have f: "\<not> err" "fault = None" using Cons.prems [of d err fault] by (simp_all add: r)
  have ih: "fst (echoStream pay (reads @ [(rest, True, None)]) g) = concat (map fst reads) @ rest \<and>
      fst (snd (echoStream pay (reads @ [(rest, True, None)]) g))" for g
    using Cons.IH [of g] Cons.prems by (meson list.set_intros(2))
  obtain ok g' where p: "pay (int (length d)) g = (ok, g')" by fastforce
  with assms(1) [of "int (length d)" g] have ok by simp
  obtain ws c g'' where e: "echoStream pay (reads @ [(rest, True, None)]) g' = (ws, c, g'')" by (metis prod.collapse)
  from ih [of g'] ih [of g] p e \<open>ok\<close> f show ?case by (simp add: r)
qed

text \<open>
  C38: A stream's loop sends a prefix of what it reads and, unless it has returned, and so
  closed the send side, everything it has read. When no \<open>spend\<close> refuses and no write fails
  it returns at the peer's FIN with every byte echoed, those that came with the FIN included.
\<close>

theorem echoStream_faithful:
  "prefix (fst (echoStream pay script g)) (concat (map fst script)) \<and>
    (\<not> fst (snd (echoStream pay script g)) \<longrightarrow> fst (echoStream pay script g) = concat (map fst script)) \<and>
    ((\<forall>n g. fst (pay n g)) \<and> (\<forall>(d, err, fault) \<in> set reads. \<not> err \<and> fault = None) \<longrightarrow>
      fst (echoStream pay (reads @ [(rest, True, None)]) g) = concat (map fst reads) @ rest \<and>
      fst (snd (echoStream pay (reads @ [(rest, True, None)]) g)))"
proof (intro conjI impI)
  assume "(\<forall>n g. fst (pay n g)) \<and> (\<forall>(d, err, fault) \<in> set reads. \<not> err \<and> fault = None)"
  then show "fst (echoStream pay (reads @ [(rest, True, None)]) g) = concat (map fst reads) @ rest"
      "fst (snd (echoStream pay (reads @ [(rest, True, None)]) g))"
    using echoStream_whole [of pay reads rest g] by (simp_all add: case_prod_beta) fastforce+
qed (simp_all add: echoStream_prefix)

theorem echoStream_faithful_witness:
  "fst (echoStream (\<lambda>n g. (True, g)) [(''ab'', False, None), ([], False, None), (''c'', True, None)] ()) = ''abc''"
  using echoStream_faithful [of "\<lambda>n g. (True, g)" "[]" "()" "[(''ab'', False, None), ([], False, None)]" "''c''"]
  by simp

end
