(* ===== verification/GoEncode.thy ===== *)
theory GoEncode
  imports GoNum
begin

text \<open>
  What the source uses of \<open>encoding/base64\<close> and \<open>crypto/sha256\<close>: the standard encoding with
  padding, its decoder as \<open>BasicAuth\<close> calls it, the raw URL encoding of the asset version, and
  \<open>Sum256\<close>.
\<close>

unbundle bit_operations_syntax

section \<open>Base64\<close>

definition letters :: string where
  "letters = map char_of ([65..<91] @ [97..<123] @ [48..<58])"

definition std_alphabet :: string where
  "std_alphabet = letters @ ''+/''"

definition url_alphabet :: string where
  "url_alphabet = letters @ ''-_''"

lemma letters_eval:
  "letters = ''ABCDEFGHIJKLMNOPQRSTUVWXYZabcdefghijklmnopqrstuvwxyz0123456789''"
  by code_simp

lemma length_alphabets [simp]: "length std_alphabet = 64" "length url_alphabet = 64"
  by (simp_all add: std_alphabet_def url_alphabet_def letters_def)

text \<open>The digits of one group of three bytes; a shorter last group has fewer, then the padding.\<close>

definition sextets :: "nat \<Rightarrow> nat list" where
  "sextets n = [n div 64 div 64 div 64 mod 64, n div 64 div 64 mod 64, n div 64 mod 64, n mod 64]"

fun base64_encode :: "string \<Rightarrow> string \<Rightarrow> bytes \<Rightarrow> string" where
  "base64_encode alphabet pad [] = []"
| "base64_encode alphabet pad [a] =
     map ((!) alphabet) (take 2 (sextets (256 * (256 * ord a)))) @ pad @ pad"
| "base64_encode alphabet pad [a, b] =
     map ((!) alphabet) (take 3 (sextets (256 * (256 * ord a + ord b)))) @ pad"
| "base64_encode alphabet pad (a # b # c # bs) =
     map ((!) alphabet) (sextets (256 * (256 * ord a + ord b) + ord c)) @ base64_encode alphabet pad bs"

definition std_encode :: "bytes \<Rightarrow> string" where
  "std_encode = base64_encode std_alphabet ''=''"

definition raw_url_encode :: "bytes \<Rightarrow> string" where
  "raw_url_encode = base64_encode url_alphabet ''''"

text \<open>
  \<open>StdEncoding.DecodeString\<close>: line breaks are skipped, then every four characters are a group;
  only the last may be padded, and the bits its padding leaves over are not looked at.
\<close>

definition sextet_of :: "char \<Rightarrow> nat option" where
  "sextet_of c = map_of (zip std_alphabet [0..<64]) c"

definition group_value :: "string \<Rightarrow> nat option" where
  "group_value cs =
     (if \<forall>c \<in> set cs. sextet_of c \<noteq> None then Some (foldl (\<lambda>n c. 64 * n + the (sextet_of c)) 0 cs) else None)"

definition group_bytes :: "nat \<Rightarrow> bytes" where
  "group_bytes n = [char_of (n div 256 div 256 mod 256), char_of (n div 256 mod 256), char_of (n mod 256)]"

fun decode_groups :: "string \<Rightarrow> bytes option" where
  "decode_groups [] = Some []"
| "decode_groups (a # b # c # d # cs) =
     (if c = CHR ''='' then
        (if d = CHR ''='' \<and> cs = [] then map_option (\<lambda>n. take 1 (group_bytes (4096 * n))) (group_value [a, b]) else None)
      else if d = CHR ''='' then
        (if cs = [] then map_option (\<lambda>n. take 2 (group_bytes (64 * n))) (group_value [a, b, c]) else None)
      else Option.bind (group_value [a, b, c, d]) (\<lambda>n. map_option ((@) (group_bytes n)) (decode_groups cs)))"
| "decode_groups cs = None"

definition std_decode :: "string \<Rightarrow> bytes option" where
  "std_decode s = decode_groups (filter (\<lambda>c. c \<noteq> CHR 0x0D \<and> c \<noteq> CHR 0x0A) s)"

lemma sextet_of_letter:
  assumes "n < 64"
  shows "sextet_of (std_alphabet ! n) = Some n"
proof -
  have "\<forall>n \<in> set [0..<64]. sextet_of (std_alphabet ! n) = Some n" by code_simp
  with assms show ?thesis by simp
qed

lemma alphabet_clean:
  assumes "n < 64"
  shows "std_alphabet ! n \<noteq> CHR ''=''" "std_alphabet ! n \<noteq> CHR 0x0D" "std_alphabet ! n \<noteq> CHR 0x0A"
proof -
  have "\<forall>c \<in> set std_alphabet. c \<noteq> CHR ''='' \<and> c \<noteq> CHR 0x0D \<and> c \<noteq> CHR 0x0A" by code_simp
  with nth_mem [of n std_alphabet] assms
  show "std_alphabet ! n \<noteq> CHR ''=''" "std_alphabet ! n \<noteq> CHR 0x0D" "std_alphabet ! n \<noteq> CHR 0x0A" by auto
qed

lemma group_value_letters:
  assumes "\<forall>n \<in> set ns. n < 64"
  shows "group_value (map ((!) std_alphabet) ns) = Some (foldl (\<lambda>n m. 64 * n + m) 0 ns)"
proof -
  have "foldl (\<lambda>n c. 64 * n + the (sextet_of c)) k (map ((!) std_alphabet) ns) = foldl (\<lambda>n m. 64 * n + m) k ns" for k
    using assms by (induction ns arbitrary: k) (simp_all add: sextet_of_letter)
  with assms show ?thesis by (auto simp: group_value_def sextet_of_letter)
qed

lemma sextets_split:
  assumes "n < 64 * (64 * (64 * 64))"
  shows "\<exists>w x y z. sextets n = [w, x, y, z] \<and> w < 64 \<and> x < 64 \<and> y < 64 \<and> z < 64 \<and>
    n = 64 * (64 * (64 * w + x) + y) + z"
proof (intro exI conjI)
  define q where "q = n div 64 div 64 div 64"
  have "n div 64 < 64 * (64 * 64)" by (rule less_mult_imp_div_less) (use assms in simp)
  then have "n div 64 div 64 < 64 * 64" by (intro less_mult_imp_div_less) simp
  then have "q < 64" unfolding q_def by (intro less_mult_imp_div_less) simp
  then show "sextets n = [q, n div 64 div 64 mod 64, n div 64 mod 64, n mod 64]" "q < 64"
    by (simp_all only: sextets_def q_def mod_less)
  show "n = 64 * (64 * (64 * q + n div 64 div 64 mod 64) + n div 64 mod 64) + n mod 64"
    unfolding q_def by (simp only: mult_div_mod_eq)
qed simp_all

definition three :: "char \<Rightarrow> char \<Rightarrow> char \<Rightarrow> nat" where
  "three a b c = 256 * (256 * ord a + ord b) + ord c"

lemma three_bound: "three a b c < 64 * (64 * (64 * 64))"
proof -
  have "256 * (256 * x + y) + z < 64 * (64 * (64 * 64))" if "x < 256" "y < 256" "z < 256" for x y z :: nat
    using that by simp
  then show ?thesis by (simp only: three_def ord_less_256)
qed

lemma group_bytes_three [simp]: "group_bytes (three a b c) = [a, b, c]"
proof -
  have d: "(256 * n + ord x) div 256 = n" "(256 * n + ord x) mod 256 = ord x" for n x
    using ord_less_256 [of x] by simp_all
  have "char_of (ord x mod 256) = x" for x :: char by simp
  then show ?thesis by (simp only: group_bytes_def three_def d char_of_char)
qed

lemma three_low:
  "\<exists>k. three a (CHR 0x00) (CHR 0x00) = 64 * (64 * k)" "\<exists>k. three a b (CHR 0x00) = 64 * k"
  by (rule exI [of _ "16 * ord a"], simp add: three_def) (rule exI [of _ "4 * (256 * ord a + ord b)"], simp add: three_def)

lemma low_zero:
  assumes "64 * k = 64 * m + z" and "z < 64"
  shows "z = 0 \<and> k = (m :: nat)"
proof -
  have "k = 64 * k div 64" by simp
  also have "\<dots> = m" unfolding assms(1) using assms(2) by simp
  finally show ?thesis using assms(1) by simp
qed

lemma encode_three:
  "base64_encode alphabet pad [a] = map ((!) alphabet) (take 2 (sextets (three a (CHR 0x00) (CHR 0x00)))) @ pad @ pad"
  "base64_encode alphabet pad [a, b] = map ((!) alphabet) (take 3 (sextets (three a b (CHR 0x00)))) @ pad"
  "base64_encode alphabet pad (a # b # c # bs) =
    map ((!) alphabet) (sextets (three a b c)) @ base64_encode alphabet pad bs"
  by (simp_all add: three_def)

text \<open>What was encoded is decoded, the padding of a short last group included.\<close>

lemma decode_groups_encode: "decode_groups (std_encode bs) = Some bs"
  unfolding std_encode_def
proof (induction std_alphabet "''=''" bs rule: base64_encode.induct)
  case (2 a)
  obtain w x y z where n: "sextets (three a (CHR 0x00) (CHR 0x00)) = [w, x, y, z]" "w < 64" "x < 64" "y < 64" "z < 64"
      "three a (CHR 0x00) (CHR 0x00) = 64 * (64 * (64 * w + x) + y) + z"
    using sextets_split [OF three_bound] by blast
  obtain k where "three a (CHR 0x00) (CHR 0x00) = 64 * (64 * k)" using three_low(1) by blast
  with n(6) have "64 * (64 * k) = 64 * (64 * (64 * w + x) + y) + z" by (simp only:)
  from low_zero [OF this n(5)] low_zero [of k "64 * w + x" y] n(4) have "z = 0" "y = 0" by simp_all
  with n(6) have "4096 * (64 * w + x) = three a (CHR 0x00) (CHR 0x00)" by simp
  with n(1-3) group_value_letters [of "[w, x]"] show ?case by (simp add: encode_three del: base64_encode.simps)
next
  case (3 a b)
  obtain w x y z where n: "sextets (three a b (CHR 0x00)) = [w, x, y, z]" "w < 64" "x < 64" "y < 64" "z < 64"
      "three a b (CHR 0x00) = 64 * (64 * (64 * w + x) + y) + z"
    using sextets_split [OF three_bound] by blast
  obtain k where "three a b (CHR 0x00) = 64 * k" using three_low(2) by blast
  with n(6) have "64 * k = 64 * (64 * (64 * w + x) + y) + z" by (simp only:)
  from low_zero [OF this n(5)] have "z = 0" by simp
  with n(6) have "64 * (64 * (64 * w + x) + y) = three a b (CHR 0x00)" by simp
  with n(1-4) group_value_letters [of "[w, x, y]"] show ?case by (simp add: encode_three alphabet_clean del: base64_encode.simps)
next
  case (4 a b c bs)
  obtain w x y z where n: "sextets (three a b c) = [w, x, y, z]" "w < 64" "x < 64" "y < 64" "z < 64"
      "three a b c = 64 * (64 * (64 * w + x) + y) + z"
    using sextets_split [OF three_bound] by blast
  have "group_bytes (64 * (64 * (64 * w + x) + y) + z) = [a, b, c]" using n(6) by (metis group_bytes_three)
  with n(1-5) 4 group_value_letters [of "[w, x, y, z]"] show ?case by (simp add: encode_three alphabet_clean del: base64_encode.simps)
qed simp

lemma encode_clean: "c \<in> set (std_encode bs) \<Longrightarrow> c \<noteq> CHR 0x0D \<and> c \<noteq> CHR 0x0A"
  unfolding std_encode_def
  by (induction std_alphabet "''=''" bs rule: base64_encode.induct) (auto simp: sextets_def alphabet_clean)

lemma std_decode_encode: "std_decode (std_encode bs) = Some bs"
proof -
  have "filter (\<lambda>c. c \<noteq> CHR 0x0D \<and> c \<noteq> CHR 0x0A) (std_encode bs) = std_encode bs"
    by (rule filter_True) (auto dest: encode_clean)
  then show ?thesis by (simp add: std_decode_def decode_groups_encode)
qed

lemma length_std_encode: "length (std_encode bs) = 4 * ((length bs + 2) div 3)"
  unfolding std_encode_def
proof (induction std_alphabet "''=''" bs rule: base64_encode.induct)
  case (4 a b c bs)
  have "(5 + length bs) div 3 = Suc ((length bs + 2) div 3)" by presburger
  with 4 show ?case by (simp add: sextets_def)
qed (simp_all add: sextets_def)

lemma length_raw_url_encode: "length (raw_url_encode bs) = (4 * length bs + 2) div 3"
  unfolding raw_url_encode_def
proof (induction url_alphabet "[] :: string" bs rule: base64_encode.induct)
  case (4 a b c bs)
  have "(4 * length bs + 14) div 3 = 4 + (4 * length bs + 2) div 3" by presburger
  with 4 show ?case by (simp add: sextets_def)
qed (simp_all add: sextets_def)

lemma raw_url_encode_chars: "c \<in> set (raw_url_encode bs) \<Longrightarrow> c \<in> set url_alphabet"
  unfolding raw_url_encode_def
  by (induction url_alphabet "[] :: string" bs rule: base64_encode.induct) (auto simp: sextets_def)

section \<open>SHA-256\<close>

text \<open>
  The constants as the standard defines them: the first 32 bits of the fractional parts of the
  cube roots and square roots of the first primes.
\<close>

primrec root_bits :: "nat \<Rightarrow> nat \<Rightarrow> int \<Rightarrow> int \<Rightarrow> int" where
  "root_bits 0 k n r = r"
| "root_bits (Suc b) k n r = root_bits b k n (if (r + 2 ^ b) ^ k \<le> n then r + 2 ^ b else r)"

definition undivided :: "nat \<Rightarrow> bool" where
  "undivided n \<longleftrightarrow> (\<forall>d \<in> set [2..<n]. n mod d \<noteq> 0)"

definition first_primes :: "nat list" where
  "first_primes = filter undivided [2..<312]"

definition round_constants :: "32 word list" where
  "round_constants = map (\<lambda>p. word_of_int (root_bits 36 3 (int p * 2 ^ 96) 0)) first_primes"

definition initial_hash :: "32 word list" where
  "initial_hash = map (\<lambda>p. word_of_int (root_bits 36 2 (int p * 2 ^ 64) 0)) (take 8 first_primes)"

fun be_words :: "bytes \<Rightarrow> 32 word list" where
  "be_words (a # b # c # d # bs) =
     word_of_int (16777216 * of_char a + 65536 * of_char b + 256 * of_char c + of_char d) # be_words bs"
| "be_words bs = []"

definition be_bytes :: "32 word \<Rightarrow> bytes" where
  "be_bytes w = map (\<lambda>k. char_of (uint (drop_bit k w))) [24, 16, 8, 0]"

definition sha256_padded :: "bytes \<Rightarrow> bytes" where
  "sha256_padded bs =
     bs @ CHR 0x80 # replicate ((119 - length bs mod 64) mod 64) CHR 0x00 @
     map (\<lambda>k. char_of (8 * int (length bs) div 2 ^ k)) [56, 48, 40, 32, 24, 16, 8, 0]"

primrec schedule :: "nat \<Rightarrow> 32 word list \<Rightarrow> 32 word list" where
  "schedule 0 ws = ws"
| "schedule (Suc n) ws =
     (let k = length ws; x = ws ! (k - 15); y = ws ! (k - 2);
          s0 = word_rotr 7 x XOR word_rotr 18 x XOR drop_bit 3 x;
          s1 = word_rotr 17 y XOR word_rotr 19 y XOR drop_bit 10 y
      in schedule n (ws @ [ws ! (k - 16) + s0 + ws ! (k - 7) + s1]))"

type_synonym hash_state =
  "32 word \<times> 32 word \<times> 32 word \<times> 32 word \<times> 32 word \<times> 32 word \<times> 32 word \<times> 32 word"

definition sha_round :: "32 word \<times> 32 word \<Rightarrow> hash_state \<Rightarrow> hash_state" where
  "sha_round kw st =
     (case st of (a, b, c, d, e, f, g, h) \<Rightarrow>
       let t1 = h + (word_rotr 6 e XOR word_rotr 11 e XOR word_rotr 25 e) + ((e AND f) XOR (NOT e AND g)) + fst kw + snd kw;
           t2 = (word_rotr 2 a XOR word_rotr 13 a XOR word_rotr 22 a) + ((a AND b) XOR (a AND c) XOR (b AND c))
       in (t1 + t2, a, b, c, d + t1, e, f, g))"

definition compress :: "bytes \<Rightarrow> 32 word list \<Rightarrow> 32 word list" where
  "compress block hs =
     (let st = fold sha_round (zip round_constants (schedule 48 (be_words block)))
            (hs ! 0, hs ! 1, hs ! 2, hs ! 3, hs ! 4, hs ! 5, hs ! 6, hs ! 7)
      in case st of (a, b, c, d, e, f, g, h) \<Rightarrow>
           [hs ! 0 + a, hs ! 1 + b, hs ! 2 + c, hs ! 3 + d, hs ! 4 + e, hs ! 5 + f, hs ! 6 + g, hs ! 7 + h])"

function blocks64 :: "bytes \<Rightarrow> bytes list" where
  "blocks64 bs = (if bs = [] then [] else take 64 bs # blocks64 (drop 64 bs))"
  by auto
termination by (relation "measure length") auto

declare blocks64.simps [simp del]

definition sha256 :: "bytes \<Rightarrow> bytes" where
  "sha256 bs = concat (map be_bytes (fold compress (blocks64 (sha256_padded bs)) initial_hash))"

lemma length_initial_hash: "length initial_hash = 8"
proof -
  have "[2..<312] = [2..<20] @ [20..<(312 :: nat)]" using upt_add_eq_append [of 2 20 292] by simp
  then have "length first_primes = length (filter undivided [2..<20]) + length (filter undivided [20..<312])"
    by (simp only: first_primes_def filter_append length_append)
  moreover have "length (filter undivided [2..<20]) = 8" by code_simp
  ultimately have "8 \<le> length first_primes" by (simp only: le_add1)
  then show ?thesis by (simp add: initial_hash_def)
qed

lemma length_fold_compress: "length hs = 8 \<Longrightarrow> length (fold compress bs hs) = 8"
  by (induction bs arbitrary: hs) (simp_all add: compress_def Let_def split: prod.split)

lemma length_be_words: "length (concat (map be_bytes ws)) = 4 * length ws"
  by (induction ws) (simp_all add: be_bytes_def)

lemma length_sha256 [simp]: "length (sha256 bs) = 32"
  by (simp add: sha256_def length_be_words length_fold_compress length_initial_hash)

text \<open>The hash of a certificate in base64 is 44 characters long, that of the assets 43.\<close>

lemma length_encoded_hash:
  "length (std_encode (sha256 bs)) = 44" "length (raw_url_encode (sha256 bs)) = 43"
  by (simp_all add: length_std_encode length_raw_url_encode)

end
