(* ===== verification/Certs.thy ===== *)
theory Certs
  imports Address GoEncode "HOL-Library.AList"
begin

text \<open>
  The certificates both binaries serve: the names of the \<open>-san\<close> flag, the templates, the
  minting of leaves and of the local CA that outlives a restart. Keys, signatures and the
  formats of \<open>crypto/x509\<close> and \<open>encoding/pem\<close> are parameters; what they are drawn from is an
  argument of every mint.
\<close>

section \<open>Names\<close>

text \<open>\<open>splitComma\<close>'s loop over the index, with the start of the current piece.\<close>

function splitComma_loop :: "string \<Rightarrow> nat \<Rightarrow> nat \<Rightarrow> string list \<Rightarrow> string list" where
  "splitComma_loop s i start out =
     (if i \<le> length s then
        (if i = length s \<or> s ! i = CHR '','' then
           splitComma_loop s (i + 1) (i + 1) (if i > start then out @ [take (i - start) (drop start s)] else out)
         else splitComma_loop s (i + 1) start out)
      else out)"
  by auto
termination
  by (relation "measure (\<lambda>(s, i, start, out). Suc (length s) - i)") auto

declare splitComma_loop.simps [simp del]

definition splitComma :: "string \<Rightarrow> string list" where
  "splitComma s = splitComma_loop s 0 0 []"

lemma splitComma_loop_split:
  assumes "start \<le> i" and "i \<le> Suc (length s)" and "start \<le> length s \<or> i = Suc (length s)"
    and "CHR '','' \<notin> set (take (i - start) (drop start s))"
  shows "splitComma_loop s i start out = out @ (if start \<le> length s \<and> i \<le> length s
    then filter (\<lambda>w. w \<noteq> []) (strings_split CHR '','' (drop start s)) else [])"
  using assms
proof (induction s i start out rule: splitComma_loop.induct)
  case (1 s i start out)
  show ?case
  proof (cases "i \<le> length s")
    case False
    then show ?thesis by (subst splitComma_loop.simps) simp
  next
    case i: True
    let ?w = "take (i - start) (drop start s)"
    consider (last) "i = length s" | (comma) "i < length s" "s ! i = CHR '',''" | (more) "i < length s" "s ! i \<noteq> CHR '',''"
      using i by linarith
    then show ?thesis
    proof cases
      case last
      with 1(5,6) have "strings_split CHR '','' (drop start s) = [drop start s]" by (intro split_word) simp
      with last 1(3) show ?thesis by (subst splitComma_loop.simps, subst splitComma_loop.simps) auto
    next
      case comma
      have d: "drop start s = ?w @ CHR '','' # drop (i + 1) s"
        using comma 1(3) id_take_nth_drop [of "i - start" "drop start s"] by simp
      have "strings_split CHR '','' (drop start s) = ?w # strings_split CHR '','' (drop (i + 1) s)"
        by (subst d) (rule split_step [OF 1(6)])
      moreover have "?w \<noteq> [] \<longleftrightarrow> start < i" using comma by auto
      ultimately show ?thesis using 1(1) [OF i] comma 1(3) by (subst splitComma_loop.simps) auto
    next
      case more
      have "take (i + 1 - start) (drop start s) = ?w @ [s ! i]"
        using more 1(3) take_Suc_conv_app_nth [of "i - start" "drop start s"] by (simp add: Suc_diff_le)
      with 1(2) [OF i] more 1(3,5,6) show ?thesis by (subst splitComma_loop.simps) auto
    qed
  qed
qed

lemma splitComma_split: "splitComma s = filter (\<lambda>w. w \<noteq> []) (strings_split CHR '','' s)"
  using splitComma_loop_split [of 0 0 s "[]"] by (simp add: splitComma_def)


section \<open>Templates\<close>

unbundle bit_operations_syntax

datatype ext_usage = ServerAuth

definition DigitalSignature :: int where
  "DigitalSignature = 1"

definition CertSign :: int where
  "CertSign = push_bit 5 1"

record certificate =
  serial :: "int option"
  common_name :: string
  not_before :: instant
  not_after :: instant
  basic_valid :: bool
  is_CA :: bool
  key_usage :: int
  ext_usages :: "ext_usage list"
  ip_addresses :: "bytes list"
  dns_names :: "string list"

text \<open>
  What a mint draws: the key, if one could be generated, the serial number, if the reader gave
  one, what the signature is made with, and the two clock readings of the template.
\<close>

record 'k draw =
  drawn_key :: "'k option"
  drawn_serial :: "int option"
  signing :: nat
  minted :: clock

definition newTemplate :: "'k draw \<Rightarrow> string \<Rightarrow> int \<Rightarrow> certificate" where
  "newTemplate m cn days =
     \<lparr>serial = drawn_serial m, common_name = cn, not_before = fst (minted m) + - hour,
      not_after = snd (minted m) + days * 24 * hour, basic_valid = True, is_CA = False, key_usage = 0,
      ext_usages = [], ip_addresses = [], dns_names = []\<rparr>"

fun addHosts :: "certificate \<Rightarrow> string list \<Rightarrow> certificate" where
  "addHosts t [] = t"
| "addHosts t (h # hosts) =
     addHosts (case parse_ip h of
         Some ip \<Rightarrow> t\<lparr>ip_addresses := ip_addresses t @ [ip]\<rparr>
       | None \<Rightarrow> t\<lparr>dns_names := dns_names t @ [h]\<rparr>) hosts"

section \<open>Minting\<close>

text \<open>
  The parts of \<open>crypto/ecdsa\<close>, \<open>crypto/x509\<close> and \<open>encoding/pem\<close> the source calls: the public
  key, \<open>CreateCertificate\<close> for a template, a parent, a public and a signing key,
  \<open>ParseCertificate\<close>, the format of private keys, and PEM blocks by their type.
\<close>

record 'k crypto =
  public_of :: "'k \<Rightarrow> bytes"
  create_cert :: "nat \<Rightarrow> certificate \<Rightarrow> certificate \<Rightarrow> bytes \<Rightarrow> 'k \<Rightarrow> bytes option"
  parse_cert :: "bytes \<Rightarrow> certificate option"
  marshal_key :: "'k \<Rightarrow> bytes"
  parse_key :: "bytes \<Rightarrow> 'k option"
  pem_encode :: "string \<Rightarrow> bytes \<Rightarrow> bytes"
  pem_decode :: "bytes \<Rightarrow> bytes option"

record 'k tls_cert =
  chain :: "bytes list"
  priv :: 'k

text \<open>\<open>log.Fatal\<close> and a nil dereference end the process.\<close>

datatype fault = Fatal | Panicked

type_synonym 'a outcome = "fault + 'a"

definition cert_hash_of :: "bytes \<Rightarrow> string" where
  "cert_hash_of der = std_encode (sha256 der)"

definition mintWTCert :: "'k crypto \<Rightarrow> 'k draw \<Rightarrow> string list \<Rightarrow> ('k tls_cert \<times> string) outcome" where
  "mintWTCert C m hosts =
     (case drawn_key m of
        None \<Rightarrow> Inl Fatal
      | Some key \<Rightarrow>
          let t = newTemplate m ''wt-lab'' 10;
              t = t\<lparr>key_usage := DigitalSignature\<rparr>;
              t = t\<lparr>ext_usages := [ServerAuth]\<rparr>;
              t = addHosts t hosts
          in case create_cert C (signing m) t t (public_of C key) key of
               None \<Rightarrow> Inl Fatal
             | Some der \<Rightarrow> Inr (\<lparr>chain = [der], priv = key\<rparr>, cert_hash_of der))"

text \<open>The legacy binary's leaf, with the key usage on trial.\<close>

definition mintLeaf :: "'k crypto \<Rightarrow> 'k draw \<Rightarrow> string list \<Rightarrow> int \<Rightarrow> ('k tls_cert \<times> string) outcome" where
  "mintLeaf C m hosts usage =
     (case drawn_key m of
        None \<Rightarrow> Inl Fatal
      | Some key \<Rightarrow>
          let t = \<lparr>serial = drawn_serial m, common_name = ''wt-pinned'', not_before = fst (minted m) + - hour,
                not_after = snd (minted m) + 10 * 24 * hour, basic_valid = True, is_CA = False, key_usage = usage,
                ext_usages = [ServerAuth], ip_addresses = [], dns_names = []\<rparr>;
              t = addHosts t hosts
          in case create_cert C (signing m) t t (public_of C key) key of
               None \<Rightarrow> Inl Fatal
             | Some der \<Rightarrow> Inr (\<lparr>chain = [der], priv = key\<rparr>, cert_hash_of der))"

section \<open>The local CA\<close>

text \<open>
  The working directory by name, which of its files can be read, and how many bytes of a
  write arrive: \<open>None\<close> when the file does not open, all of them when there is no such limit.
\<close>

record ca_io =
  reads :: "string \<Rightarrow> bool"
  writes :: "string \<Rightarrow> nat option"

definition read_file :: "ca_io \<Rightarrow> (string \<times> bytes) list \<Rightarrow> string \<Rightarrow> bytes option" where
  "read_file io d name = (if reads io name then map_of d name else None)"

definition write_file :: "ca_io \<Rightarrow> string \<Rightarrow> bytes \<Rightarrow> (string \<times> bytes) list \<Rightarrow> (string \<times> bytes) list" where
  "write_file io name b d = (case writes io name of None \<Rightarrow> d | Some k \<Rightarrow> AList.update name (take k b) d)"

definition loadOrMintCA ::
  "'k crypto \<Rightarrow> 'k draw \<Rightarrow> ca_io \<Rightarrow> (string \<times> bytes) list \<Rightarrow> ('k \<times> bytes) outcome \<times> (string \<times> bytes) list" where
  "loadOrMintCA C m io d =
     (case (read_file io d ''ca.key'', read_file io d ''ca.pem'') of
        (Some keyPEM, Some certPEM) \<Rightarrow>
          ((case pem_decode C keyPEM of
              None \<Rightarrow> Inl Panicked
            | Some keyBlock \<Rightarrow>
                (case parse_key C keyBlock of
                   None \<Rightarrow> Inl Fatal
                 | Some key \<Rightarrow>
                     (case pem_decode C certPEM of
                        None \<Rightarrow> Inl Panicked
                      | Some certBlock \<Rightarrow> Inr (key, certBlock)))), d)
      | _ \<Rightarrow>
          (case drawn_key m of
             None \<Rightarrow> (Inl Fatal, d)
           | Some caKey \<Rightarrow>
               let t = newTemplate m ''wt-lab local CA'' 30;
                   t = t\<lparr>is_CA := True\<rparr>;
                   t = t\<lparr>key_usage := CertSign OR DigitalSignature\<rparr>
               in case create_cert C (signing m) t t (public_of C caKey) caKey of
                    None \<Rightarrow> (Inl Fatal, d)
                  | Some caDER \<Rightarrow>
                      let d = write_file io ''ca.key'' (pem_encode C ''EC PRIVATE KEY'' (marshal_key C caKey)) d;
                          d = write_file io ''ca.pem'' (pem_encode C ''CERTIFICATE'' caDER) d
                      in (Inr (caKey, caDER), d)))"

definition mintPageChain ::
  "'k crypto \<Rightarrow> 'k draw \<Rightarrow> 'k draw \<Rightarrow> ca_io \<Rightarrow> string list \<Rightarrow> (string \<times> bytes) list \<Rightarrow>
    ('k tls_cert \<times> bytes) outcome \<times> (string \<times> bytes) list" where
  "mintPageChain C m\<^sub>1 m\<^sub>2 io hosts d =
     (case loadOrMintCA C m\<^sub>1 io d of
        (Inl f, d) \<Rightarrow> (Inl f, d)
      | (Inr (caKey, caDER), d) \<Rightarrow>
          ((case drawn_key m\<^sub>2 of
              None \<Rightarrow> Inl Fatal
            | Some key \<Rightarrow>
                let t = newTemplate m\<^sub>2 ''wt-lab page'' 10;
                    t = t\<lparr>key_usage := DigitalSignature\<rparr>;
                    t = t\<lparr>ext_usages := [ServerAuth]\<rparr>;
                    t = addHosts t hosts
                in case parse_cert C caDER of
                     None \<Rightarrow> Inl Panicked
                   | Some caCert \<Rightarrow>
                       (case create_cert C (signing m\<^sub>2) t caCert (public_of C key) caKey of
                          None \<Rightarrow> Inl Fatal
                        | Some der \<Rightarrow> Inr (\<lparr>chain = [der, caDER], priv = key\<rparr>, caDER))), d))"

end
