(* ===== verification/GoHttp.thy ===== *)
theory GoHttp
  imports Address GoEncode
begin

text \<open>
  What the page server uses of \<open>net/http\<close> and \<open>net/url\<close>: requests, the response a handler
  writes, query strings and Basic credentials.
\<close>

section \<open>Requests and responses\<close>

record request =
  url_path :: string
  raw_query :: string
  req_header :: header
  remote_addr :: string

record response =
  status :: int
  resp_header :: "string \<rightharpoonup> string"
  body :: bytes

definition fresh_response :: response where
  "fresh_response = \<lparr>status = 200, resp_header = Map.empty, body = []\<rparr>"

definition header_set :: "string \<Rightarrow> string \<Rightarrow> response \<Rightarrow> response" where
  "header_set k v w = w\<lparr>resp_header := (resp_header w)(canonical_from True k \<mapsto> v)\<rparr>"

definition resp_write :: "bytes \<Rightarrow> response \<Rightarrow> response" where
  "resp_write b w = w\<lparr>body := body w @ b\<rparr>"

definition write_header :: "int \<Rightarrow> response \<Rightarrow> response" where
  "write_header code w = w\<lparr>status := code\<rparr>"

lemma header_keys [simp]:
  "canonical_from True ''Content-Type'' = ''Content-Type''"
  "canonical_from True ''Cache-Control'' = ''Cache-Control''"
  "canonical_from True ''WWW-Authenticate'' = ''Www-Authenticate''"
  "canonical_from True ''Content-Disposition'' = ''Content-Disposition''"
  "canonical_from True ''Authorization'' = ''Authorization''"
  by code_simp+

section \<open>Query strings\<close>

definition strings_cut :: "char \<Rightarrow> string \<Rightarrow> string \<times> string \<times> bool" where
  "strings_cut c s =
     (case index_byte c s of None \<Rightarrow> (s, '''', False) | Some i \<Rightarrow> (take i s, drop (Suc i) s, True))"

lemma strings_cut_first: "c \<notin> set u \<Longrightarrow> strings_cut c (u @ c # v) = (u, v, True)"
  by (simp add: strings_cut_def index_byte_first)

fun query_unescape :: "string \<Rightarrow> string option" where
  "query_unescape [] = Some []"
| "query_unescape (c # s) =
     (if c = CHR ''%'' then
        (case s of
           a # b # t \<Rightarrow>
             (case (digit_value a, digit_value b) of
                (Some i, Some j) \<Rightarrow> map_option ((#) (char_of (16 * i + j))) (query_unescape t)
              | _ \<Rightarrow> None)
         | _ \<Rightarrow> None)
      else map_option ((#) (if c = CHR ''+'' then CHR '' '' else c)) (query_unescape s))"

definition query_pair :: "string \<Rightarrow> (string \<times> string) option" where
  "query_pair piece =
     (if CHR '';'' \<in> set piece \<or> piece = '''' then None
      else case strings_cut CHR ''='' piece of (k, v, _) \<Rightarrow>
        Option.bind (query_unescape k) (\<lambda>k. map_option (Pair k) (query_unescape v)))"

text \<open>\<open>URL.Query().Get\<close>: pieces that do not parse are dropped, the first value of a key counts.\<close>

definition query_get :: "string \<Rightarrow> string \<Rightarrow> string" where
  "query_get q k =
     (case filter (\<lambda>(k', v). k' = k) (List.map_filter query_pair (strings_split CHR ''&'' q)) of
        [] \<Rightarrow> '''' | (_, v) # _ \<Rightarrow> v)"

section \<open>Basic credentials\<close>

definition basic_auth :: "header \<Rightarrow> (string \<times> string) option" where
  "basic_auth h =
     (let auth = header_get h ''Authorization'' in
      if length auth < 6 \<or> map to_lower (take 6 auth) \<noteq> ''basic '' then None
      else case std_decode (drop 6 auth) of
        None \<Rightarrow> None
      | Some c \<Rightarrow> (case strings_cut CHR '':'' c of (u, p, ok) \<Rightarrow> if ok then Some (u, p) else None))"

text \<open>Any user name without a colon and any password are read back as they were sent.\<close>

lemma basic_auth_sent:
  assumes "h ''Authorization'' = Some ((scheme @ std_encode (u @ CHR '':'' # p)) # vs)"
    and "length scheme = 6" and "map to_lower scheme = ''basic ''" and "CHR '':'' \<notin> set u"
  shows "basic_auth h = Some (u, p)"
  using assms by (simp add: basic_auth_def header_get_def std_decode_encode strings_cut_first)

lemma basic_auth_absent: "h ''Authorization'' = None \<Longrightarrow> basic_auth h = None"
  by (simp add: basic_auth_def header_get_def)

end
