(* ===== verification/Pages.thy ===== *)
theory Pages
  imports Observe GoHttp
begin

text \<open>
  The page server of the main binary: the pages and their templates (\<open>pages.go\<close>), the version
  of the assets, and the handlers of the page and the CA server in \<open>main.go\<close>. What
  \<open>html/template\<close> renders and what \<open>http.FileServer\<close> answers are parameters.
\<close>

section \<open>Pages\<close>

definition contentUpdated :: string where
  "contentUpdated = ''08-02-2026''"

record page =
  Title :: string
  Description :: string
  Nav :: string
  Updated :: string
  Version :: string

text \<open>A literal of \<open>pageSpecs\<close>, whose last two fields are left empty, and the dash in UTF-8.\<close>

definition page_of :: "string \<Rightarrow> string \<Rightarrow> string \<Rightarrow> page" where
  "page_of title description nav =
     \<lparr>Title = title, Description = description, Nav = nav, Updated = '''', Version = ''''\<rparr>"

definition em_dash :: string where
  "em_dash = [CHR 0xE2, CHR 0x80, CHR 0x94]"

definition pageSpecs :: "(string \<times> string \<times> page) list" where
  "pageSpecs = [
   (''/'', (''echo.html'', page_of (''WebTransport Echo'')
      (''A public WebTransport echo server and test client. Send datagrams and streams and get them straight back, and see which endpoints your own browser will establish a session against.'')
      ''echo'')),
   (''/compat'', (''compat.html'', page_of (''WebTransport compatibility '' @ em_dash @ '' Safari, iOS, Chrome and Firefox'')
      (''What each engine requires of a WebTransport server, what it silently discards, and what breaks. Safari and iOS in detail, tested live against a public echo.'')
      ''compat'')),
   (''/probe'', (''probe.html'', page_of (''WebTransport flow-control probe'')
      (''Push one connection past the byte and stream counts where WebKit stops returning flow-control credit, and see where your browser stalls. A live reproduction of WebKit bug 319818.'')
      ''probe'')),
   (''/references'', (''references.html'', page_of (''WebTransport references and sources'')
      (''Primary sources for every claim on this site: specifications and drafts, WebKit and Chromium bug reports, and the measurements taken against this host.'')
      ''references'')),
   (''/exhibits/apple'', (''exhibit-apple.html'', page_of (''Exhibit '' @ em_dash @ '' iOS 27 refuses valid WebTransport handshakes'')
      (''Two servers whose advertised h3 SETTINGS and QUIC transport parameters match on every value compared. Safari on iOS 27 establishes a session against one and refuses the other.'')
      '''')),
   (''/exhibits/quic-go'', (''exhibit-quicgo.html'', page_of (''Exhibit '' @ em_dash @ '' quic-go and webtransport-go'')
      (''Three reproducible findings against webtransport-go and quic-go, each testable live against a public echo.'')
      ''''))]"

text \<open>The files \<open>go:embed\<close> takes in.\<close>

definition pagesFS :: "string list" where
  "pagesFS = map (\<lambda>f. ''web/pages/'' @ f) [''compat.html'', ''echo.html'', ''exhibit-apple.html'',
     ''exhibit-quicgo.html'', ''layout.html'', ''probe.html'', ''references.html'']"

text \<open>
  A template is known by the files it was parsed from; \<open>template.Must\<close> panics, \<open>None\<close>, when
  one of them is missing.
\<close>

definition parse_fs :: "string list \<Rightarrow> string list \<Rightarrow> string list option" where
  "parse_fs fs names = (if set names \<subseteq> set fs then Some names else None)"

fun parsePages_from :: "string list \<Rightarrow> (string \<times> string \<times> page) list \<Rightarrow> (string \<rightharpoonup> string list) \<Rightarrow>
    (string \<rightharpoonup> string list) option" where
  "parsePages_from fs [] ts = Some ts"
| "parsePages_from fs ((route, file, _) # specs) ts =
     (case parse_fs fs [''web/pages/layout.html'', ''web/pages/'' @ file] of
        None \<Rightarrow> None
      | Some t \<Rightarrow> parsePages_from fs specs (ts(route \<mapsto> t)))"

definition parsePages :: "(string \<rightharpoonup> string list) option" where
  "parsePages = parsePages_from pagesFS pageSpecs Map.empty"

section \<open>The version of the assets\<close>

text \<open>An embedded tree; \<open>WalkDir\<close> visits a directory's entries in the order of their names.\<close>

datatype node = File bytes | Dir "(string \<times> node) list"

fun walk_files :: "string \<Rightarrow> node \<Rightarrow> (string \<times> bytes) list" where
  "walk_files path (File b) = [(path, b)]"
| "walk_files path (Dir es) = concat (map (\<lambda>(name, e). walk_files (path @ CHR ''/'' # name) e) es)"

definition hashAssets :: "node \<Rightarrow> string" where
  "hashAssets assets =
     take 10 (raw_url_encode (sha256 (concat (map (\<lambda>(path, data). path @ data) (walk_files ''web/assets'' assets)))))"

section \<open>Handlers\<close>

text \<open>
  What the handlers read: the rendering of a template, given its files and the page, as the
  bytes \<open>ExecuteTemplate\<close> writes; the parsed templates; the asset tree; the file server; the
  served leaf's hash; the shared directory with the files of it that can be read; the clock.
\<close>

record web =
  execute :: "string list \<Rightarrow> page \<Rightarrow> bytes"
  templates :: "string \<rightharpoonup> string list"
  asset_tree :: node
  file_server :: "request \<Rightarrow> response \<Rightarrow> response"
  cert_hash :: string
  hash_dir :: dir
  legible :: "string \<Rightarrow> bool"
  read_at :: instant

text \<open>A missing entry is the zero page and Go's nil template, on which the handler panics: \<open>None\<close>.\<close>

definition renderPage :: "web \<Rightarrow> string \<Rightarrow> response \<Rightarrow> response option" where
  "renderPage W route w =
     (let w = header_set ''Content-Type'' ''text/html; charset=utf-8'' w;
          data = (case map_of pageSpecs route of Some (_, p) \<Rightarrow> p | None \<Rightarrow> page_of '''' '''' '''');
          data = data\<lparr>Updated := contentUpdated, Version := hashAssets (asset_tree W)\<rparr>
      in case templates W route of
           None \<Rightarrow> None
         | Some t \<Rightarrow> Some (resp_write (execute W t data) w))"

definition authUser :: string where
  "authUser = ''retro''"

definition authPass :: string where
  "authPass = ''retro''"

definition auth_page :: "web \<Rightarrow> request \<Rightarrow> response \<Rightarrow> response option" where
  "auth_page W r w =
     (let unauthorized = write_header 401 (header_set ''WWW-Authenticate'' ''Basic realm=\"echo\"'' w) in
      case basic_auth (req_header r) of
        None \<Rightarrow> Some unauthorized
      | Some (user, pass) \<Rightarrow>
          if user \<noteq> authUser \<or> pass \<noteq> authPass then Some unauthorized else renderPage W ''/'' w)"

definition serve_asset :: "web \<Rightarrow> request \<Rightarrow> response \<Rightarrow> response" where
  "serve_asset W r w =
     (let immutable = query_get (raw_query r) ''v'' \<noteq> '''' \<or> has_suffix (url_path r) ''.woff2'';
          w = header_set ''Cache-Control''
            (if immutable then ''public, max-age=31536000, immutable'' else ''public, max-age=300'') w
      in file_server W r w)"

text \<open>
  The JSON of an answer to \<open>/observed\<close>: the keys of the map in order, an event as
  \<open>marshal_observation\<close> writes it without its address, a newline at the end. An event whose
  time has no text makes \<open>Encode\<close> fail before it writes.
\<close>

definition marshal_event :: "observedEvent \<Rightarrow> string option" where
  "marshal_event e =
     (case time_text (event_at e) of
        None \<Rightarrow> None
      | Some t \<Rightarrow> Some
          (''{'' @ json_key ''t'' @ dquote # t @ [dquote] @ '','' @
           json_key ''port'' @ itoa (event_port e) @ '','' @
           json_key ''kind'' @ json_string (event_kind e) @
           (if event_detail e = '''' then '''' else '','' @ json_key ''detail'' @ json_string (event_detail e)) @ ''}''))"

fun join_comma :: "string list \<Rightarrow> string" where
  "join_comma [] = ''''"
| "join_comma [w] = w"
| "join_comma (w # ws) = w @ CHR '','' # join_comma ws"

definition encode_observed :: "string \<Rightarrow> observedEvent list \<Rightarrow> string option" where
  "encode_observed address events =
     (if \<exists>e \<in> set events. marshal_event e = None then None
      else Some (''{'' @ json_key ''address'' @ json_string address @ '','' @
        json_key ''events'' @ ''['' @ join_comma (map (\<lambda>e. the (marshal_event e)) events) @ '']'' @ ''}'' @ [CHR 0x0A]))"

definition observed_page :: "web \<Rightarrow> request \<Rightarrow> response \<Rightarrow> response" where
  "observed_page W r w =
     (let address = clientAddress (req_header r) (remote_addr r);
          w = header_set ''Content-Type'' ''application/json'' w;
          w = header_set ''Cache-Control'' ''no-store'' w
      in case encode_observed address (readObservations (read_at W) (legible W) (hash_dir W) address (30 * second)) of
           None \<Rightarrow> w
         | Some text \<Rightarrow> resp_write text w)"

definition hash_file :: "nat \<Rightarrow> string" where
  "hash_file p = ''hash'' @ dec p"

definition published_hash :: "web \<Rightarrow> nat \<Rightarrow> response \<Rightarrow> response" where
  "published_hash W p w =
     (let published = (if legible W (hash_file p) then file_content (hash_dir W) (hash_file p) else '''')
      in resp_write published (header_set ''Content-Type'' ''text/plain'' w))"

text \<open>The page a path without a handler of its own is answered with.\<close>

definition page_route :: "string \<Rightarrow> string" where
  "page_route path =
     (let route = trim_suffix path ''/'';
          route = (if route = '''' then ''/'' else route)
      in if map_of pageSpecs route = None then ''/'' else route)"

definition page_handler :: "web \<Rightarrow> request \<Rightarrow> response option" where
  "page_handler W r =
     (let w = fresh_response in
      if url_path r = ''/auth'' \<or> has_prefix (url_path r) ''/auth/'' then auth_page W r w
      else if has_prefix (url_path r) ''/assets/'' then Some (serve_asset W r w)
      else if url_path r = ''/hash'' then Some (resp_write (cert_hash W) (header_set ''Content-Type'' ''text/plain'' w))
      else if url_path r = ''/observed'' then Some (observed_page W r w)
      else case Option.bind (cut_prefix (url_path r) ''/hash'') parse_uint16 of
        Some p \<Rightarrow> Some (published_hash W p w)
      | None \<Rightarrow> renderPage W (page_route (url_path r)) w)"

text \<open>The handler of the plain-http door for the CA.\<close>

definition ca_handler :: "bytes \<Rightarrow> response" where
  "ca_handler caDER =
     resp_write caDER
       (header_set ''Content-Disposition'' ''attachment; filename=\"wt-lab-ca.crt\"''
         (header_set ''Content-Type'' ''application/x-x509-ca-cert'' fresh_response))"

end
