(* ===== verification/Startup.thy ===== *)
theory Startup
  imports Certs Pages Legacy_Observe
begin

text \<open>
  How the two binaries come up: their flags, which certificate every port serves and which hash
  the page gives out for it, the listeners that are started, and the hash files the legacy
  binary leaves in the shared directory for the page server of the other.
\<close>

section \<open>The main binary\<close>

record main_flags =
  port :: int
  page_port :: int
  qlog_dir :: string
  sans :: string
  wt_cert_mode :: string
  cert_file :: string
  key_file :: string
  bind_host :: string
  hash_dir_flag :: string
  trio_port :: int

definition main_defaults :: main_flags where
  "main_defaults = \<lparr>port = 4433, page_port = 4434, qlog_dir = ''qlog'', sans = ''localhost,127.0.0.1,::1'',
     wt_cert_mode = ''hash'', cert_file = '''', key_file = '''', bind_host = '''', hash_dir_flag = ''/tmp'',
     trio_port = 4440\<rparr>"

text \<open>
  The flow-control fields of a listener's configuration; \<open>None\<close> is the library's default. A
  listener also has the certificates and the protocols of its TLS configuration, and the check
  of a request's origin.
\<close>

record wt_config =
  MaxIncomingStreams :: int
  MaxIncomingUniStreams :: int
  MaxIncomingData :: int

record 'k listener =
  udp_addr :: string
  listen_port :: int
  wt_config :: "wt_config option"
  served :: "'k tls_cert"
  next_protos :: "string list"
  check_origin :: "request \<Rightarrow> bool"

text \<open>
  What the system answers at start: \<open>os.MkdirAll\<close> on the qlog directory, the removal of the
  observer's old file, the working directory of the CA, \<open>tls.LoadX509KeyPair\<close> on the files of
  the \<open>le\<close> mode, \<open>net.Listen\<close> on the page's address.
\<close>

record 'k main_io =
  mkdir_all :: "string \<Rightarrow> bool"
  stale_removed :: bool
  ca_files :: ca_io
  load_key_pair :: "string \<Rightarrow> string \<Rightarrow> 'k tls_cert option"
  tcp_listens :: "string \<Rightarrow> bool"

record 'k certs =
  wt_cert :: "'k tls_cert"
  page_cert :: "'k tls_cert"
  page_hash :: string
  ca_DER :: bytes

definition main_certs ::
  "'k crypto \<Rightarrow> main_flags \<Rightarrow> 'k main_io \<Rightarrow> 'k draw \<Rightarrow> 'k draw \<Rightarrow> 'k draw \<Rightarrow> (string \<times> bytes) list \<Rightarrow>
    'k certs outcome \<times> (string \<times> bytes) list" where
  "main_certs C fl io m\<^sub>0 m\<^sub>1 m\<^sub>2 d =
     (let hosts = splitComma (sans fl) in
      case mintWTCert C m\<^sub>0 hosts of
        Inl f \<Rightarrow> (Inl f, d)
      | Inr (cert, hash) \<Rightarrow>
          (case mintPageChain C m\<^sub>1 m\<^sub>2 (ca_files io) hosts d of
             (Inl f, d) \<Rightarrow> (Inl f, d)
           | (Inr (pageCert, caDER), d) \<Rightarrow>
               if wt_cert_mode fl = ''ca'' then
                 (Inr \<lparr>wt_cert = pageCert, page_cert = pageCert,
                    page_hash = cert_hash_of (chain pageCert ! 0), ca_DER = caDER\<rparr>, d)
               else if wt_cert_mode fl = ''le'' then
                 (case load_key_pair io (cert_file fl) (key_file fl) of
                    None \<Rightarrow> (Inl Fatal, d)
                  | Some loaded \<Rightarrow> (Inr \<lparr>wt_cert = loaded, page_cert = loaded, page_hash = '''', ca_DER = caDER\<rparr>, d))
               else (Inr \<lparr>wt_cert = cert, page_cert = pageCert, page_hash = hash, ca_DER = caDER\<rparr>, d)))"

definition startWT :: "string \<Rightarrow> 'k tls_cert \<Rightarrow> int \<Rightarrow> wt_config option \<Rightarrow> 'k listener" where
  "startWT host cert p config =
     \<lparr>udp_addr = host @ '':'' @ itoa p, listen_port = p, wt_config = config, served = cert, next_protos = [''h3''],
      check_origin = (\<lambda>_. True)\<rparr>"

definition trio_config :: wt_config where
  "trio_config = \<lparr>MaxIncomingStreams = 2 ^ 60, MaxIncomingUniStreams = 2 ^ 60, MaxIncomingData = 2 ^ 60\<rparr>"

definition main_listeners :: "main_flags \<Rightarrow> 'k tls_cert \<Rightarrow> 'k listener list" where
  "main_listeners fl cert =
     [startWT (bind_host fl) cert (port fl) None,
      startWT (bind_host fl) cert 443 None,
      startWT (bind_host fl) cert (trio_port fl) (Some trio_config)]"

record 'k main_process =
  qlog_env :: string
  lab_watch :: observer
  page_tmpls :: "string \<rightharpoonup> string list"
  keys_served :: "'k certs"
  wt_listeners :: "'k listener list"
  page_addr :: string
  ca_addr :: string

text \<open>The page server listens last; the process does not come up when it cannot.\<close>

definition listen_page :: "'k main_io \<Rightarrow> main_flags \<Rightarrow> bool" where
  [simp]: "listen_page io fl \<longleftrightarrow> tcp_listens io ('':'' @ itoa (page_port fl))"

text \<open>
  \<open>main\<close> up to its accept loop, with the CA's directory and the one the flag \<open>-hashdir\<close> names;
  \<open>qlog_env\<close> is the variable the tracer finds its directory in.
\<close>

definition main_start ::
  "'k crypto \<Rightarrow> main_flags \<Rightarrow> 'k main_io \<Rightarrow> 'k draw \<Rightarrow> 'k draw \<Rightarrow> 'k draw \<Rightarrow> (string \<times> bytes) list \<Rightarrow> dir \<Rightarrow>
    'k main_process outcome \<times> (string \<times> bytes) list \<times> dir" where
  "main_start C fl io m\<^sub>0 m\<^sub>1 m\<^sub>2 d shared =
     (if \<not> mkdir_all io (qlog_dir fl) then (Inl Fatal, d, shared)
      else case parsePages of
        None \<Rightarrow> (Inl Panicked, d, shared)
      | Some ts \<Rightarrow>
          (case newObserver (stale_removed io) ''lab'' shared of (ob, shared) \<Rightarrow>
             (case main_certs C fl io m\<^sub>0 m\<^sub>1 m\<^sub>2 d of
                (Inl f, d) \<Rightarrow> (Inl f, d, shared)
              | (Inr cs, d) \<Rightarrow>
                  if \<not> listen_page io fl then (Inl Fatal, d, shared)
                  else (Inr \<lparr>qlog_env = qlog_dir fl, lab_watch = ob, page_tmpls = ts, keys_served = cs,
                      wt_listeners = main_listeners fl (wt_cert cs), page_addr = '':'' @ itoa (page_port fl),
                      ca_addr = '':'' @ itoa (page_port fl + 1)\<rparr>, d, shared))))"

section \<open>The legacy binary\<close>

record legacy_flags =
  legacy_port :: int
  pinned_port :: int
  cert_sign_port :: int
  probe_port :: int
  alt_port :: int
  legacy_cert_file :: string
  legacy_key_file :: string
  legacy_qlog_dir :: string
  legacy_hash_dir :: string
  legacy_sans :: string
  legacy_bind :: string

definition legacy_defaults :: legacy_flags where
  "legacy_defaults = \<lparr>legacy_port = 4436, pinned_port = 4437, cert_sign_port = 4439, probe_port = 4441, alt_port = 6443,
     legacy_cert_file = ''/cert.pem'', legacy_key_file = ''/key.pem'', legacy_qlog_dir = ''qlog-legacy'',
     legacy_hash_dir = ''/tmp'', legacy_sans = ''echo.semantic-ui.com,localhost,127.0.0.1,::1'', legacy_bind = ''''\<rparr>"

fun legacy_splitComma_loop :: "nat \<Rightarrow> string \<Rightarrow> nat \<Rightarrow> nat \<Rightarrow> string list \<Rightarrow> string list" where
  "legacy_splitComma_loop 0 s i start out = out"
| "legacy_splitComma_loop (Suc n) s i start out =
     (if i = length s \<or> s ! i = CHR '','' then
        legacy_splitComma_loop n s (i + 1) (i + 1) (if i > start then out @ [take (i - start) (drop start s)] else out)
      else legacy_splitComma_loop n s (i + 1) start out)"

text \<open>The loop counts its iterations down: one for every index and one past the end.\<close>

definition legacy_splitComma :: "string \<Rightarrow> string list" where
  "legacy_splitComma s = legacy_splitComma_loop (Suc (length s)) s 0 0 []"

text \<open>A call of \<open>serveWT\<close>: the address, the port, the certificate, the tag, the probe flag.\<close>

record 'k rung =
  rung_addr :: string
  rung_port :: int
  rung_cert :: "'k tls_cert"
  rung_tag :: string
  rung_probe :: bool
  rung_protos :: "string list"
  rung_origin :: "request \<Rightarrow> bool"

definition serveWT :: "string \<Rightarrow> int \<Rightarrow> 'k tls_cert \<Rightarrow> string \<Rightarrow> bool \<Rightarrow> 'k rung" where
  "serveWT host p cert tag probe =
     \<lparr>rung_addr = host @ '':'' @ itoa p, rung_port = p, rung_cert = cert, rung_tag = tag, rung_probe = probe,
      rung_protos = [''h3''], rung_origin = (\<lambda>_. True)\<rparr>"

text \<open>The \<open>publish\<close> closure; a write that fails may leave the start of the hash.\<close>

definition publish :: "ca_io \<Rightarrow> int \<Rightarrow> string \<Rightarrow> dir \<Rightarrow> unit outcome \<times> dir" where
  "publish io p hash d =
     (let name = ''hash'' @ itoa p; d' = write_file io name hash d in
      case writes io name of
        None \<Rightarrow> (Inl Fatal, d')
      | Some k \<Rightarrow> (if k < length hash then Inl Fatal else Inr (), d'))"

record 'k legacy_io =
  legacy_mkdir_all :: "string \<Rightarrow> bool"
  legacy_stale_removed :: bool
  legacy_key_pair :: "string \<Rightarrow> string \<Rightarrow> 'k tls_cert option"
  publishing :: ca_io

definition legacy_rungs ::
  "legacy_flags \<Rightarrow> 'k tls_cert \<Rightarrow> 'k tls_cert \<Rightarrow> 'k tls_cert \<Rightarrow> 'k rung list" where
  "legacy_rungs fl real pinned certSign =
     [serveWT (legacy_bind fl) (legacy_port fl) real ''legacy'' False,
      serveWT (legacy_bind fl) (pinned_port fl) pinned ''pinned'' False,
      serveWT (legacy_bind fl) (cert_sign_port fl) certSign ''certsign'' False,
      serveWT (legacy_bind fl) (alt_port fl) pinned ''altport'' False,
      serveWT (legacy_bind fl) (probe_port fl) real ''probe'' True]"

definition legacy_start ::
  "'k crypto \<Rightarrow> legacy_flags \<Rightarrow> 'k legacy_io \<Rightarrow> 'k draw \<Rightarrow> 'k draw \<Rightarrow> dir \<Rightarrow>
    (legacy_observer \<times> 'k rung list) outcome \<times> dir" where
  "legacy_start C fl io m\<^sub>1 m\<^sub>2 d =
     (if \<not> legacy_mkdir_all io (legacy_qlog_dir fl) then (Inl Fatal, d)
      else case legacy_newObserver (legacy_stale_removed io) ''legacy'' d of (ob, d) \<Rightarrow>
        (case legacy_key_pair io (legacy_cert_file fl) (legacy_key_file fl) of
           None \<Rightarrow> (Inl Fatal, d)
         | Some real \<Rightarrow>
             let hosts = legacy_splitComma (legacy_sans fl) in
             (case mintLeaf C m\<^sub>1 hosts DigitalSignature of
                Inl f \<Rightarrow> (Inl f, d)
              | Inr (pinned, pinnedHash) \<Rightarrow>
                  (case mintLeaf C m\<^sub>2 hosts (DigitalSignature OR CertSign) of
                     Inl f \<Rightarrow> (Inl f, d)
                   | Inr (certSign, certSignHash) \<Rightarrow>
                       (case publish (publishing io) (pinned_port fl) pinnedHash d of
                          (Inl f, d) \<Rightarrow> (Inl f, d)
                        | (Inr _, d) \<Rightarrow>
                            (case publish (publishing io) (cert_sign_port fl) certSignHash d of
                               (Inl f, d) \<Rightarrow> (Inl f, d)
                             | (Inr _, d) \<Rightarrow>
                                 (case publish (publishing io) (alt_port fl) pinnedHash d of
                                    (Inl f, d) \<Rightarrow> (Inl f, d)
                                  | (Inr _, d) \<Rightarrow> (Inr (ob, legacy_rungs fl real pinned certSign), d))))))))"

end
