(* ===== verification/Pages_Json.thy ===== *)
theory Pages_Json
  imports Pages Observe_Facts
begin

text \<open>
  The JSON of \<open>/observed\<close> read back: what the encoder writes for an address and its events is
  what a reader of the document finds, whatever characters the texts hold.
\<close>

section \<open>A reader\<close>

text \<open>The address, and of every event its time, port, kind and detail, which may be missing.\<close>

fun read_event :: "json \<Rightarrow> observedEvent option" where
  "read_event (JObject ms) =
     do { at \<leftarrow> (case map_of ms ''t'' of Some (JString t) \<Rightarrow> parse_time t | _ \<Rightarrow> None);
          port \<leftarrow> (case map_of ms ''port'' of Some (JNumber w) \<Rightarrow> atoi w | _ \<Rightarrow> None);
          kind \<leftarrow> Option.bind (map_of ms ''kind'') text_value;
          detail \<leftarrow> (case map_of ms ''detail'' of None \<Rightarrow> Some '''' | Some v \<Rightarrow> text_value v);
          Some \<lparr>event_at = at, event_port = port, event_kind = kind, event_detail = detail\<rparr> }"
| "read_event _ = None"

fun read_events :: "json list \<Rightarrow> observedEvent list option" where
  "read_events [] = Some []"
| "read_events (v # vs) = do { e \<leftarrow> read_event v; es \<leftarrow> read_events vs; Some (e # es) }"

definition read_observed :: "string \<Rightarrow> (string \<times> observedEvent list) option" where
  "read_observed s =
     (case parse_document s of
        Some (JObject [(''address'', JString a), (''events'', JArray vs)]) \<Rightarrow>
          map_option (Pair (unquote a)) (read_events vs)
      | _ \<Rightarrow> None)"

text \<open>Bytes that are not UTF-8 are replaced on the way, as everywhere in JSON.\<close>

definition legible_event :: "observedEvent \<Rightarrow> observedEvent" where
  "legible_event e = e\<lparr>event_kind := sanitize (event_kind e), event_detail := sanitize (event_detail e)\<rparr>"

section \<open>Events\<close>

definition event_json :: "observedEvent \<Rightarrow> string \<Rightarrow> json" where
  "event_json e t = JObject
     ([(''t'', JString t), (''port'', JNumber (itoa (event_port e))), (''kind'', JString (quote_body (event_kind e)))] @
      (if event_detail e = '''' then [] else [(''detail'', JString (quote_body (event_detail e)))]))"

lemma parse_members_obj:
  "parse_value (Suc m) (CHR ''{'' # dquote # u) = map_option (apfst JObject) (parse_members m (dquote # u))"
  by (simp del: parse_members.simps)

lemma json_key_cons: "json_key k @ s = dquote # k @ [dquote, CHR '':''] @ s"
  by (simp add: json_key_def)

lemma parse_event:
  assumes "marshal_event e = Some s"
  shows "\<exists>t. time_text (event_at e) = Some t \<and>
    parse_value (Suc (Suc (Suc (Suc (Suc (Suc n)))))) (s @ r) = Some (event_json e t, r)"
proof -
  obtain t where t: "time_text (event_at e) = Some t"
    using assms by (auto simp: marshal_event_def split: option.splits)
  define tail where "tail = (if event_detail e = '''' then '''' else '','' @ json_key ''detail'' @ json_string (event_detail e)) @ CHR ''}'' # r"
  define ms where "ms = (''kind'', JString (quote_body (event_kind e))) #
    (if event_detail e = '''' then [] else [(''detail'', JString (quote_body (event_detail e)))])"
  have s: "s @ r = CHR ''{'' # json_key ''t'' @ (dquote # t @ [dquote]) @ CHR '','' # json_key ''port'' @ itoa (event_port e) @
      CHR '','' # json_key ''kind'' @ json_string (event_kind e) @ tail"
    using assms t by (simp add: marshal_event_def tail_def)
  have last: "parse_members (Suc (Suc (Suc n))) (json_key ''kind'' @ json_string (event_kind e) @ tail) = Some (ms, r)"
  proof (cases "event_detail e = ''''")
    case True
    then show ?thesis
      using member_last [OF field_keys_plain(4) parse_json_string, of "Suc n" "event_kind e" r]
      by (simp add: tail_def ms_def)
  next
    case False
    then show ?thesis
      using member_more [OF field_keys_plain(4) parse_json_string, of "Suc n" "event_kind e"
          "json_key ''detail'' @ json_string (event_detail e) @ CHR ''}'' # r"]
        member_last [OF field_keys_plain(5) parse_json_string, of n "event_detail e" r]
      by (simp add: tail_def ms_def)
  qed
  have p3: "parse_members (Suc (Suc (Suc (Suc n)))) (json_key ''port'' @ itoa (event_port e) @ CHR '','' #
      json_key ''kind'' @ json_string (event_kind e) @ tail) = Some ((''port'', JNumber (itoa (event_port e))) # ms, r)"
    by (simp only: member_more [OF field_keys_plain(3) parse_itoa] last) simp
  have tv: "parse_value (Suc m) ((dquote # t @ [dquote]) @ CHR '','' # r) = Some (JString t, CHR '','' # r)" for m r
    using parse_literal [OF scan_plain_literal [OF time_text_plain [OF t]], of m "CHR '','' # r"] by simp
  have "parse_members (Suc (Suc (Suc (Suc (Suc n))))) (json_key ''t'' @ (dquote # t @ [dquote]) @ CHR '','' #
      json_key ''port'' @ itoa (event_port e) @ CHR '','' # json_key ''kind'' @ json_string (event_kind e) @ tail) =
      Some ((''t'', JString t) # (''port'', JNumber (itoa (event_port e))) # ms, r)"
    by (simp only: member_more [OF field_keys_plain(1) tv] p3) simp
  then have "parse_value (Suc (Suc (Suc (Suc (Suc (Suc n)))))) (s @ r) =
      Some (JObject ((''t'', JString t) # (''port'', JNumber (itoa (event_port e))) # ms), r)"
    unfolding s json_key_cons [of "''t''"] by (subst parse_members_obj) simp
  with t show ?thesis by (simp add: event_json_def ms_def)
qed

lemma read_event_json:
  assumes "time_text (event_at e) = Some t" and "- (2 ^ 63) \<le> event_port e" and "event_port e < 2 ^ 63"
  shows "read_event (event_json e t) = Some (legible_event e)"
  using parse_time_text [OF assms(1)] atoi_itoa [OF assms(2,3)]
  by (cases e) (simp add: event_json_def text_value_def unquote_quote legible_event_def)

section \<open>The document\<close>

definition event_sound :: "observedEvent \<Rightarrow> bool" where
  "event_sound e \<longleftrightarrow> time_text (event_at e) \<noteq> None \<and> - (2 ^ 63) \<le> event_port e \<and> event_port e < 2 ^ 63"

lemma marshal_event_Some: "event_sound e \<Longrightarrow> \<exists>s. marshal_event e = Some s"
  by (auto simp: event_sound_def marshal_event_def)

definition the_json :: "observedEvent \<Rightarrow> json" where
  "the_json e = event_json e (the (time_text (event_at e)))"

lemma parse_event_sound:
  assumes "event_sound e"
  shows "parse_value (Suc (Suc (Suc (Suc (Suc (Suc n)))))) (the (marshal_event e) @ r) = Some (the_json e, r)"
proof -
  obtain s where "marshal_event e = Some s" using marshal_event_Some [OF assms] by blast
  with parse_event [OF this, of n r] show ?thesis by (auto simp: the_json_def)
qed

lemma read_events_json:
  assumes "\<forall>e \<in> set es. event_sound e"
  shows "read_events (map the_json es) = Some (map legible_event es)"
  using assms
proof (induction es)
  case (Cons e es)
  then show ?case using read_event_json [of e "the (time_text (event_at e))"]
    by (simp add: the_json_def event_sound_def)
qed simp

lemma join_comma_more: "ws \<noteq> [] \<Longrightarrow> join_comma (w # ws) = w @ CHR '','' # join_comma ws"
  by (cases ws) simp_all

lemma parse_events:
  assumes "\<forall>e \<in> set es. event_sound e" and "es \<noteq> []"
  shows "parse_elements (length es + (n + 6)) (join_comma (map (\<lambda>e. the (marshal_event e)) es) @ CHR '']'' # r) =
    Some (map the_json es, r)"
  using assms
proof (induction es)
  case (Cons e es)
  define m where "m = length es + n"
  have six: "length es + (n + 6) = Suc (Suc (Suc (Suc (Suc (Suc m)))))" "length (e # es) + (n + 6) = Suc (length es + (n + 6))"
    by (simp_all add: m_def)
  have e: "event_sound e" using Cons.prems by simp
  show ?case
  proof (cases "es = []")
    case True
    with parse_event_sound [OF e, of m "CHR '']'' # r"] show ?thesis
      unfolding six by (simp del: parse_value.simps)
  next
    case False
    with Cons have ih: "parse_elements (length es + (n + 6)) (join_comma (map (\<lambda>e. the (marshal_event e)) es) @ CHR '']'' # r) =
        Some (map the_json es, r)" by simp
    with False parse_event_sound [OF e, of m] show ?thesis
      unfolding six by (simp add: join_comma_more del: parse_value.simps)
  qed
qed simp

lemma join_comma_cons:
  assumes "es \<noteq> []" and "\<forall>e \<in> set es. event_sound e"
  shows "\<exists>u. join_comma (map (\<lambda>e. the (marshal_event e)) es) = CHR ''{'' # u"
proof -
  obtain e es' where es: "es = e # es'" using assms(1) by (cases es) auto
  obtain s where "marshal_event e = Some s" using assms(2) es marshal_event_Some by auto
  then have "\<exists>u. the (marshal_event e) = CHR ''{'' # u" by (auto simp: marshal_event_def split: option.splits)
  then show ?thesis by (cases es') (auto simp: es)
qed

lemma length_join_comma:
  assumes "\<forall>e \<in> set es. event_sound e"
  shows "length es \<le> length (join_comma (map (\<lambda>e. the (marshal_event e)) es))"
  using assms
proof (induction es)
  case (Cons e es)
  from join_comma_cons [of "[e]"] Cons show ?case by (cases "es = []") (auto simp: join_comma_more)
qed simp

lemma parse_array_obj:
  "parse_value (Suc m) (CHR ''['' # CHR ''{'' # u) = map_option (apfst JArray) (parse_elements m (CHR ''{'' # u))"
  by (simp del: parse_elements.simps)

lemma keys_plain: "\<forall>c \<in> set ''address''. plain c" "\<forall>c \<in> set ''events''. plain c"
  by (simp_all add: plain_def)

lemma parse_events_value:
  assumes "\<forall>e \<in> set es. event_sound e"
  shows "parse_value (Suc (length es + (n + 6)))
      ((CHR ''['' # join_comma (map (\<lambda>e. the (marshal_event e)) es) @ [CHR '']'']) @ CHR ''}'' # r) =
    Some (JArray (map the_json es), CHR ''}'' # r)"
proof (cases "es = []")
  case False
  obtain u where u: "join_comma (map (\<lambda>e. the (marshal_event e)) es) = CHR ''{'' # u"
    using join_comma_cons [OF False assms] by blast
  have "parse_elements (length es + (n + 6)) (CHR ''{'' # u @ CHR '']'' # CHR ''}'' # r) = Some (map the_json es, CHR ''}'' # r)"
    using parse_events [OF assms False, of n "CHR ''}'' # r"] unfolding u by simp
  then show ?thesis unfolding u append.simps append_assoc parse_array_obj by simp
next
  case True
  have "parse_value (Suc m) (CHR ''['' # CHR '']'' # s) = Some (JArray [], s)" for m s by simp
  from this [of "length es + (n + 6)" "CHR ''}'' # r"] show ?thesis
    unfolding True by (simp only: list.map join_comma.simps append.simps)
qed

lemma read_encoded:
  assumes "\<forall>e \<in> set es. event_sound e"
  shows "\<exists>s. encode_observed a es = Some s \<and> read_observed s = Some (sanitize a, map legible_event es)"
proof -
  let ?j = "join_comma (map (\<lambda>e. the (marshal_event e)) es)"
  have "\<forall>e \<in> set es. marshal_event e \<noteq> None" using assms marshal_event_Some by fastforce
  then obtain s where enc: "encode_observed a es = Some s"
    and s: "s = CHR ''{'' # json_key ''address'' @ json_string a @ CHR '','' # json_key ''events'' @
      (CHR ''['' # ?j @ [CHR '']'']) @ CHR ''}'' # [CHR 0x0A]"
    by (auto simp: encode_observed_def)
  define n where "n = 2 * length s + 2 - length es - 10"
  have "length es + 10 \<le> 2 * length s + 2"
    using length_join_comma [OF assms] unfolding s by (simp add: json_key_def)
  then have n: "2 * length s + 2 = Suc (Suc (Suc (Suc (length es + (n + 6)))))" by (simp add: n_def)
  have p2: "parse_members (Suc (Suc (length es + (n + 6)))) (json_key ''events'' @
      (CHR ''['' # ?j @ [CHR '']'']) @ CHR ''}'' # [CHR 0x0A]) = Some ([(''events'', JArray (map the_json es))], [CHR 0x0A])"
    by (rule member_last [OF keys_plain(2) parse_events_value [OF assms]])
  have "parse_members (Suc (Suc (Suc (length es + (n + 6))))) (json_key ''address'' @ json_string a @ CHR '','' #
      json_key ''events'' @ (CHR ''['' # ?j @ [CHR '']'']) @ CHR ''}'' # [CHR 0x0A]) =
    Some ([(''address'', JString (quote_body a)), (''events'', JArray (map the_json es))], [CHR 0x0A])"
    by (simp only: member_more [OF keys_plain(1) parse_json_string] p2) simp
  then have "parse_value (2 * length s + 2) s =
      Some (JObject [(''address'', JString (quote_body a)), (''events'', JArray (map the_json es))], [CHR 0x0A])"
    unfolding n unfolding s json_key_cons [of "''address''"] by (subst parse_members_obj) simp
  then have "parse_document s = Some (JObject [(''address'', JString (quote_body a)), (''events'', JArray (map the_json es))])"
    by (simp add: parse_document_def skip_ws_def)
  with enc read_events_json [OF assms] show ?thesis by (simp add: read_observed_def unquote_quote)
qed

end
