(* ===== verification/Pages_Props.thy ===== *)
theory Pages_Props
  imports Pages_Json Observe_Props
begin

text \<open>
  The properties of the page server: every request is answered, every page is found under its
  path, what \<open>/auth\<close> asks for, what the server reads of the shared directory, the JSON of
  \<open>/observed\<close>, and the caching of versioned assets.
\<close>

section \<open>Routing\<close>

lemma pageSpecs_routes:
  "map fst pageSpecs = [''/'', ''/compat'', ''/probe'', ''/references'', ''/exhibits/apple'', ''/exhibits/quic-go'']"
  "map (\<lambda>(r, f, p). f) pageSpecs =
    [''echo.html'', ''compat.html'', ''probe.html'', ''references.html'', ''exhibit-apple.html'', ''exhibit-quicgo.html'']"
  by (simp_all add: pageSpecs_def)

lemma pageSpecs_cases:
  assumes "map_of pageSpecs route = Some spec"
  shows "route \<in> {''/'', ''/compat'', ''/probe'', ''/references'', ''/exhibits/apple'', ''/exhibits/quic-go''}"
proof -
  have "route \<in> set (map fst pageSpecs)" using assms by (force dest: map_of_SomeD)
  then show ?thesis unfolding pageSpecs_routes(1) by simp
qed

text \<open>Parsing succeeds and gives every route the layout and its own file.\<close>

definition page_templates :: "string \<rightharpoonup> string list" where
  "page_templates r = map_option (\<lambda>(f, p). [''web/pages/layout.html'', ''web/pages/'' @ f]) (map_of pageSpecs r)"

lemma parsePages_Some: "parsePages = Some page_templates"
  by (simp add: parsePages_def pageSpecs_def pagesFS_def parse_fs_def page_templates_def fun_eq_iff)

lemma page_route_known: "\<exists>spec. map_of pageSpecs (page_route path) = Some spec"
proof -
  have "map_of pageSpecs ''/'' \<noteq> None" by (simp add: pageSpecs_def)
  then show ?thesis by (auto simp: page_route_def Let_def)
qed

definition html :: "bytes \<Rightarrow> response" where
  "html b = \<lparr>status = 200, resp_header = [''Content-Type'' \<mapsto> ''text/html; charset=utf-8''], body = b\<rparr>"

text \<open>What is rendered for a route: its own template with its own page, the date and the version.\<close>

definition rendering :: "web \<Rightarrow> string \<Rightarrow> bytes" where
  "rendering W route =
     (case map_of pageSpecs route of
        Some (f, p) \<Rightarrow> execute W [''web/pages/layout.html'', ''web/pages/'' @ f]
          (p\<lparr>Updated := contentUpdated, Version := hashAssets (asset_tree W)\<rparr>)
      | None \<Rightarrow> '''')"

lemma renderPage_known:
  assumes "parsePages = Some (templates W)" and "map_of pageSpecs route = Some spec"
  shows "renderPage W route fresh_response = Some (html (rendering W route))"
proof -
  have "templates W = page_templates" using assms(1) by (simp add: parsePages_Some)
  with assms(2) show ?thesis
    by (cases spec) (simp add: renderPage_def page_templates_def rendering_def html_def fresh_response_def
        header_set_def resp_write_def)
qed

lemma page_handler_answers:
  assumes "parsePages = Some (templates W)"
  shows "\<exists>w. page_handler W r = Some w"
proof -
  obtain spec where "map_of pageSpecs (page_route (url_path r)) = Some spec" using page_route_known by blast
  from renderPage_known [OF assms this] have route: "\<exists>w. renderPage W (page_route (url_path r)) fresh_response = Some w" by simp
  have "\<exists>spec. map_of pageSpecs ''/'' = Some spec" by (simp add: pageSpecs_def)
  then have root: "\<exists>w. renderPage W ''/'' fresh_response = Some w" using renderPage_known [OF assms] by blast
  show ?thesis using route root
    by (simp add: page_handler_def auth_page_def Let_def split: option.split prod.split)
qed

text \<open>
  C31: The templates parse from the embedded files at start, and with them the page server
  answers every request: no path, query, header or peer makes a handler run into a missing
  template.
\<close>

theorem every_request_answered:
  "\<exists>ts. parsePages = Some ts \<and> (\<forall>W r. templates W = ts \<longrightarrow> (\<exists>w. page_handler W r = Some w))"
  using page_handler_answers by (auto simp: parsePages_Some)

text \<open>A concrete server: rendering shows the page's title, the only asset is a script.\<close>

definition sample_web :: web where
  "sample_web = \<lparr>execute = (\<lambda>t p. Title p), templates = page_templates, asset_tree = Dir [(''wt.js'', File ''x'')],
     file_server = (\<lambda>r w. w), cert_hash = ''h'', hash_dir = [(''hash4437'', ''pinned'')], legible = (\<lambda>_. True), read_at = 0\<rparr>"

definition get :: "string \<Rightarrow> request" where
  "get path = \<lparr>url_path = path, raw_query = '''', req_header = Map.empty, remote_addr = ''10.0.0.1:5000''\<rparr>"

theorem every_request_answered_witness: "\<exists>w. page_handler sample_web (get ''/auth/x'') = Some w"
proof -
  obtain ts where ts: "parsePages = Some ts" "\<forall>W r. templates W = ts \<longrightarrow> (\<exists>w. page_handler W r = Some w)"
    using every_request_answered by blast
  then have "templates sample_web = ts" by (simp add: parsePages_Some sample_web_def)
  with ts(2) show ?thesis by blast
qed

text \<open>
  C30: Every page is found under its path, with or without one slash at the end: the answer is
  200, HTML, and what the page's own template renders from its own texts, the date of the
  claims and the version of the assets. No other handler takes one of these paths.
\<close>

theorem page_found:
  assumes "parsePages = Some (templates W)" and "map_of pageSpecs route = Some (file, p)"
    and "url_path r = route \<or> url_path r = route @ ''/''"
  shows "page_handler W r = Some \<lparr>status = 200, resp_header = [''Content-Type'' \<mapsto> ''text/html; charset=utf-8''],
    body = execute W [''web/pages/layout.html'', ''web/pages/'' @ file]
      (p\<lparr>Updated := contentUpdated, Version := hashAssets (asset_tree W)\<rparr>)\<rparr>"
proof -
  have k: "map_of pageSpecs ''/'' \<noteq> None" by (simp add: pageSpecs_def)
  have t: "trim_suffix ''//'' ''/'' = ''/''" "trim_suffix ''/'' ''/'' = ''''" by code_simp+
  have route: "page_route (url_path r) = route"
  proof (cases "route = ''/''")
    case True
    with assms(3) k t show ?thesis by (auto simp: page_route_def Let_def)
  next
    case False
    have "trim_suffix route ''/'' = route" "route \<noteq> ''''"
      using pageSpecs_cases [OF assms(2)] False by (auto simp: trim_suffix_def has_suffix_def)
    with assms(2,3) show ?thesis by (auto simp: page_route_def Let_def)
  qed
  have other: "url_path r \<noteq> ''/auth''" "\<not> has_prefix (url_path r) ''/auth/''" "\<not> has_prefix (url_path r) ''/assets/''"
      "url_path r \<noteq> ''/hash''" "url_path r \<noteq> ''/observed''" "cut_prefix (url_path r) ''/hash'' = None"
    using pageSpecs_cases [OF assms(2)] assms(3) by (auto simp: has_prefix_def cut_prefix_def)
  have "page_handler W r = renderPage W route fresh_response"
    using other by (simp add: page_handler_def Let_def route)
  then show ?thesis
    using renderPage_known [OF assms(1,2)] assms(2) by (simp add: rendering_def html_def)
qed

theorem page_found_witness:
  "\<exists>w. page_handler sample_web (get ''/exhibits/quic-go/'') = Some w \<and> body w = ''Exhibit '' @ em_dash @ '' quic-go and webtransport-go''"
proof -
  have "parsePages = Some (templates sample_web)" by (simp add: parsePages_Some sample_web_def)
  moreover obtain d n where "map_of pageSpecs ''/exhibits/quic-go'' = Some (''exhibit-quicgo.html'',
      page_of (''Exhibit '' @ em_dash @ '' quic-go and webtransport-go'') d n)" by (simp add: pageSpecs_def)
  moreover have "url_path (get ''/exhibits/quic-go/'') = ''/exhibits/quic-go'' @ ''/''" by (simp add: get_def)
  ultimately show ?thesis using page_found by (auto simp: sample_web_def page_of_def)
qed

section \<open>Credentials\<close>

text \<open>
  C32: \<open>/auth\<close> and everything below it answers with the echo page exactly to the fixture's
  credentials, however the scheme is spelt, and to anything else with 401, a challenge and no
  body. The same page is open at \<open>/\<close>.
\<close>

theorem auth_guard:
  assumes "parsePages = Some (templates W)" and "url_path r = ''/auth'' \<or> (\<exists>rest. url_path r = ''/auth/'' @ rest)"
  shows "page_handler W r = (if basic_auth (req_header r) = Some (''retro'', ''retro'')
      then page_handler W (r\<lparr>url_path := ''/''\<rparr>)
      else Some \<lparr>status = 401, resp_header = [''Www-Authenticate'' \<mapsto> ''Basic realm=\"echo\"''], body = []\<rparr>) \<and>
    (req_header r ''Authorization'' = Some [''bAsIc cmV0cm86cmV0cm8=''] \<longrightarrow>
      page_handler W r = page_handler W (r\<lparr>url_path := ''/''\<rparr>))"
proof -
  have root: "page_handler W (r\<lparr>url_path := ''/''\<rparr>) = renderPage W ''/'' fresh_response"
    by (simp add: page_handler_def page_route_def Let_def has_prefix_def cut_prefix_def trim_suffix_def has_suffix_def)
  have "page_handler W r = auth_page W r fresh_response"
    using assms(2) by (auto simp: page_handler_def Let_def)
  then have guard: "page_handler W r = (if basic_auth (req_header r) = Some (''retro'', ''retro'')
      then page_handler W (r\<lparr>url_path := ''/''\<rparr>)
      else Some \<lparr>status = 401, resp_header = [''Www-Authenticate'' \<mapsto> ''Basic realm=\"echo\"''], body = []\<rparr>)"
    by (auto simp: root auth_page_def authUser_def authPass_def Let_def write_header_def header_set_def fresh_response_def
        split: option.split)
  have "std_encode (''retro'' @ CHR '':'' # ''retro'') = ''cmV0cm86cmV0cm8=''"
    by (simp add: std_encode_def sextets_def std_alphabet_def letters_eval)
  moreover have "map to_lower ''bAsIc '' = ''basic ''" by code_simp
  ultimately have "basic_auth (req_header r) = Some (''retro'', ''retro'')"
    if "req_header r ''Authorization'' = Some [''bAsIc cmV0cm86cmV0cm8='']"
    using basic_auth_sent [of "req_header r" "''bAsIc ''" "''retro''" "''retro''" "[]"] that
    by simp
  with guard show ?thesis by simp
qed

theorem auth_guard_witness:
  "page_handler sample_web (get ''/auth/page'') =
    Some \<lparr>status = 401, resp_header = [''Www-Authenticate'' \<mapsto> ''Basic realm=\"echo\"''], body = []\<rparr>"
proof -
  have p: "parsePages = Some (templates sample_web)" by (simp add: parsePages_Some sample_web_def)
  have "basic_auth (req_header (get ''/auth/page'')) = None" by (simp add: get_def basic_auth_absent)
  then show ?thesis using auth_guard [OF p, of "get ''/auth/page''"] by (simp add: get_def)
qed

section \<open>What is read of the shared directory\<close>

text \<open>
  C29: The page server reveals nothing of the shared directory but the hash files of the ports
  below 65536 and the observers' files: two directories that agree on those, and on which of
  them can be read, are answered alike to any request, whatever its path, query, headers and
  peer are. The file a path \<open>/hash\<close> names is rebuilt from a number, so it has no separator.
\<close>

theorem directory_confined:
  assumes "\<And>p. p < 65536 \<Longrightarrow> legible W' (hash_file p) = legible W (hash_file p) \<and>
      file_content (hash_dir W') (hash_file p) = file_content (hash_dir W) (hash_file p)"
    and "glob_observed (hash_dir W') = glob_observed (hash_dir W)"
    and "\<And>f. f \<in> set (glob_observed (hash_dir W)) \<Longrightarrow> legible W' f = legible W f \<and>
      file_content (hash_dir W') f = file_content (hash_dir W) f"
    and "W' = W\<lparr>hash_dir := hash_dir W', legible := legible W'\<rparr>"
  shows "page_handler W' r = page_handler W r \<and> CHR ''/'' \<notin> set (hash_file p)"
proof
  have same: "read_at W' = read_at W" "templates W' = templates W" "execute W' = execute W" "asset_tree W' = asset_tree W"
      "file_server W' = file_server W" "cert_hash W' = cert_hash W" by (subst assms(4), simp)+
  have "readObservations (read_at W') (legible W') (hash_dir W') a w = readObservations (read_at W) (legible W) (hash_dir W) a w" for a w
  proof -
    have f: "filter (legible W') (glob_observed (hash_dir W')) = filter (legible W) (glob_observed (hash_dir W))"
      using assms(3) by (simp add: assms(2) cong: filter_cong)
    have m: "map (\<lambda>f. file_events a c (file_content (hash_dir W') f)) (filter (legible W) (glob_observed (hash_dir W))) =
        map (\<lambda>f. file_events a c (file_content (hash_dir W) f)) (filter (legible W) (glob_observed (hash_dir W)))" for c
      using assms(3) by simp
    show ?thesis by (simp only: readObservations_def Let_def same f m)
  qed
  then have obs: "observed_page W' r = observed_page W r" by (simp add: observed_page_def fun_eq_iff Let_def)
  have "renderPage W' = renderPage W" by (intro ext) (simp add: renderPage_def same split: option.split)
  moreover from this have "auth_page W' = auth_page W" by (intro ext) (simp only: auth_page_def)
  moreover have "serve_asset W' = serve_asset W" by (intro ext) (simp add: serve_asset_def same)
  moreover have "published_hash W' p w = published_hash W p w" if "p < 65536" for p w
    using assms(1) [OF that] by (simp add: published_hash_def)
  moreover have "p < 65536" if "Option.bind (cut_prefix (url_path r) ''/hash'') parse_uint16 = Some p" for p
    using that parse_uint16_bound by (auto simp: bind_eq_Some_conv)
  ultimately show "page_handler W' r = page_handler W r"
    by (simp add: page_handler_def Let_def obs same split: option.split)
  show "CHR ''/'' \<notin> set (hash_file p)" using dec_decimal [of "CHR ''/''" p] by (auto simp: hash_file_def decimal_def)
qed

theorem directory_confined_witness:
  "page_handler (sample_web\<lparr>hash_dir := (''passwd'', ''secret'') # hash_dir sample_web\<rparr>) (get ''/hash/../passwd'') =
    page_handler sample_web (get ''/hash/../passwd'')"
proof -
  let ?W = "sample_web\<lparr>hash_dir := (''passwd'', ''secret'') # hash_dir sample_web\<rparr>"
  have "hash_file p \<noteq> ''passwd''" for p by (simp add: hash_file_def)
  then have c: "file_content (hash_dir ?W) (hash_file p) = file_content (hash_dir sample_web) (hash_file p)" for p
    by (simp add: file_content_def)
  have g: "glob_observed (hash_dir ?W) = []" "glob_observed (hash_dir sample_web) = []"
    by (simp_all add: glob_observed_def observed_name_def has_prefix_def sample_web_def)
  show ?thesis
    using directory_confined [of ?W sample_web "get ''/hash/../passwd''"] c g by simp
qed

section \<open>The answer to \<open>/observed\<close>\<close>

lemma observed_answer:
  assumes "url_path r = ''/observed''" and "a = clientAddress (req_header r) (remote_addr r)"
    and "es = readObservations (read_at W) (legible W) (hash_dir W) a (30 * second)" and "\<forall>e \<in> set es. event_sound e"
  shows "\<exists>w. page_handler W r = Some w \<and> status w = 200 \<and> resp_header w ''Cache-Control'' = Some ''no-store'' \<and>
    read_observed (body w) = Some (sanitize a, map legible_event es)"
proof -
  obtain s where "encode_observed a es = Some s" "read_observed s = Some (sanitize a, map legible_event es)"
    using read_encoded [OF assms(4)] by blast
  then show ?thesis
    using assms(1-3) by (simp add: page_handler_def observed_page_def Let_def has_prefix_def header_set_def resp_write_def
        fresh_response_def)
qed

lemma marshalled_sound: "e \<in> set (marshalled cs) \<Longrightarrow> \<forall>c \<in> set cs. faithful_text c \<Longrightarrow> event_sound (event_of e) \<and> legible_event (event_of e) = event_of e"
  by (auto simp: marshalled_def marshal_observation_def observation_of_def faithful_text_def event_sound_def event_of_def
      legible_event_def sanitize_valid split: option.splits)

lemma recorded_answer:
  assumes "newObserver True label d = (ob, d\<^sub>0)" and "\<forall>c \<in> set cs. call_io c = io_ok"
    and "record_calls cs (Some ob, d\<^sub>0) = (ob', hash_dir W)" and "volume (marshalled cs) \<le> observationCeiling"
    and "\<forall>c \<in> set cs. faithful_text c" and "distinct (map fst d)"
    and "\<forall>n \<in> file_names d. observed_name n \<longrightarrow> n = observer_file label" and "CHR ''/'' \<notin> set label"
    and "legible W (observer_file label)" and "url_path r = ''/observed''"
    and "a = clientAddress (req_header r) (remote_addr r)" and "valid_utf8 a"
  shows "\<exists>w es. page_handler W r = Some w \<and> read_observed (body w) = Some (a, es) \<and> sorted (map event_at es) \<and>
    mset es = image_mset event_of {#e \<in># mset (marshalled cs). Addr e = a \<and> read_at W - 30 * second \<le> At e#}"
proof -
  define es where "es = readObservations (read_at W) (legible W) (hash_dir W) a (30 * second)"
  have es: "mset es = image_mset event_of {#e \<in># mset (marshalled cs). Addr e = a \<and> read_at W - 30 * second \<le> At e#}"
      "sorted (map event_at es)"
    unfolding es_def using recorded_read_back [OF assms(1-8), where readable = "legible W" and now = "read_at W" and address = a and window = "30 * second"] assms(9) by simp_all
  have "set es \<subseteq> event_of ` set (marshalled cs)" using arg_cong [OF es(1), of set_mset] by auto
  then have sound: "\<forall>e \<in> set es. event_sound e \<and> legible_event e = e"
    using marshalled_sound assms(5) by blast
  then have "map legible_event es = es" by (simp add: map_idI)
  with observed_answer [OF assms(10,11) es_def] sound assms(12) es show ?thesis by (force simp: sanitize_valid)
qed

text \<open>
  C3: What a listener records is what the page is told: after any calls of \<open>record\<close> on a new
  observer whose lines fit in the ceiling, a request for \<open>/observed\<close> from an address is
  answered with a JSON document that reads as that address and exactly its recorded events of
  the last 30 seconds, each once, oldest first, nothing changed by the way through the file,
  the reader and the answer's encoding.
\<close>

theorem recorded_shown:
  assumes "newObserver True label d = (ob, d\<^sub>0)" and "\<forall>c \<in> set cs. call_io c = io_ok"
    and "record_calls cs (Some ob, d\<^sub>0) = (ob', hash_dir W)" and "volume (marshalled cs) \<le> observationCeiling"
    and "\<forall>c \<in> set cs. faithful_text c" and "distinct (map fst d)"
    and "\<forall>n \<in> file_names d. observed_name n \<longrightarrow> n = observer_file label" and "CHR ''/'' \<notin> set label"
    and "legible W (observer_file label)" and "url_path r = ''/observed''"
    and "a = clientAddress (req_header r) (remote_addr r)" and "valid_utf8 a"
  shows "\<exists>w es. page_handler W r = Some w \<and> read_observed (body w) = Some (a, es) \<and> sorted (map event_at es) \<and>
    mset es = image_mset event_of {#e \<in># mset (marshalled cs). Addr e = a \<and> read_at W - 30 * second \<le> At e#}"
  using recorded_answer [OF assms] .

theorem recorded_shown_witness:
  "\<exists>W w. page_handler W (get ''/observed'') = Some w \<and>
    read_observed (body w) = Some (''10.0.0.1'', [\<lparr>event_at = 0, event_port = 443, event_kind = ''quic'', event_detail = ''''\<rparr>])"
proof -
  obtain ob d where r: "record_calls sample_calls (Some \<lparr>obs_name = observer_file ''lab'', obs_size = 0\<rparr>, []) = (Some ob, d)"
    using sample_calls_recorded(6) by blast
  let ?W = "sample_web\<lparr>hash_dir := d\<rparr>"
  have a: "clientAddress Map.empty ''10.0.0.1:5000'' = ''10.0.0.1''"
    by code_simp
  have shown: "\<exists>w es. page_handler ?W (get ''/observed'') = Some w \<and> read_observed (body w) = Some (''10.0.0.1'', es) \<and>
      sorted (map event_at es) \<and>
      mset es = image_mset event_of {#e \<in># mset (marshalled sample_calls). Addr e = ''10.0.0.1'' \<and> read_at ?W - 30 * second \<le> At e#}"
    by (rule recorded_shown [OF sample_calls_recorded(5,1) _ sample_calls_recorded(3,4)])
      (simp_all add: r a get_def sample_web_def valid_ascii)
  from shown obtain w es where w: "page_handler ?W (get ''/observed'') = Some w" "read_observed (body w) = Some (''10.0.0.1'', es)"
      "mset es = image_mset event_of {#e \<in># mset (marshalled sample_calls). Addr e = ''10.0.0.1'' \<and> read_at ?W - 30 * second \<le> At e#}"
    by blast
  moreover have "image_mset event_of {#e \<in># mset (marshalled sample_calls). Addr e = ''10.0.0.1'' \<and> read_at ?W - 30 * second \<le> At e#} =
      {#\<lparr>event_at = 0, event_port = 443, event_kind = ''quic'', event_detail = ''''\<rparr>#}"
    unfolding sample_calls_recorded(2)
    by (simp add: sample_calls_def sample_call_def observation_of_def event_of_def sample_web_def)
  ultimately have "mset es = {#\<lparr>event_at = 0, event_port = 443, event_kind = ''quic'', event_detail = ''''\<rparr>#}" by (simp only:)
  then have "es = [\<lparr>event_at = 0, event_port = 443, event_kind = ''quic'', event_detail = ''''\<rparr>]" by (simp only: mset_single_iff)
  with w(1,2) show ?thesis by blast
qed

section \<open>Versioned assets\<close>

lemma url_alphabet_plain: "c \<in> set url_alphabet \<Longrightarrow> c \<noteq> CHR ''%'' \<and> c \<noteq> CHR ''+'' \<and> c \<noteq> CHR ''&'' \<and> c \<noteq> CHR '';'' \<and> c \<noteq> CHR ''=''"
proof -
  have "\<forall>c \<in> set url_alphabet. c \<noteq> CHR ''%'' \<and> c \<noteq> CHR ''+'' \<and> c \<noteq> CHR ''&'' \<and> c \<noteq> CHR '';'' \<and> c \<noteq> CHR ''=''" by code_simp
  then show "c \<in> set url_alphabet \<Longrightarrow> ?thesis" by blast
qed

lemma hashAssets_text: "length (hashAssets t) = 10" "c \<in> set (hashAssets t) \<Longrightarrow> c \<in> set url_alphabet"
  using raw_url_encode_chars by (auto simp: hashAssets_def length_encoded_hash dest: in_set_takeD)

lemma query_unescape_plain: "\<forall>c \<in> set s. c \<noteq> CHR ''%'' \<and> c \<noteq> CHR ''+'' \<Longrightarrow> query_unescape s = Some s"
  by (induction s) simp_all

lemma query_get_version:
  assumes "\<forall>c \<in> set v. c \<in> set url_alphabet"
  shows "query_get (''v='' @ v) ''v'' = v"
proof -
  have p: "\<forall>c \<in> set v. c \<noteq> CHR ''%'' \<and> c \<noteq> CHR ''+'' \<and> c \<noteq> CHR ''&'' \<and> c \<noteq> CHR '';'' \<and> c \<noteq> CHR ''=''"
    using assms url_alphabet_plain by blast
  then have s: "strings_split CHR ''&'' (''v='' @ v) = [''v='' @ v]" by (intro split_word) auto
  have c: "strings_cut CHR ''='' (''v='' @ v) = (''v'', v, True)" using strings_cut_first [of "CHR ''=''" "''v''" v] by simp
  have "query_pair (''v='' @ v) = Some (''v'', v)"
    using p c by (auto simp: query_pair_def query_unescape_plain)
  then show ?thesis unfolding query_get_def s by (simp add: map_filter_simps)
qed

text \<open>
  The version of the assets is ten characters that a URL carries as they are, for any asset
  tree, so every asset URL a page writes with \<open>?v=\<close> and that version is answered with the
  immutable cache lifetime; without a version only font files are.
\<close>

lemma versioned_asset_immutable:
  assumes "url_path r = ''/assets/'' @ file"
  shows "length (hashAssets (asset_tree W)) = 10 \<and>
    (raw_query r = ''v='' @ hashAssets (asset_tree W) \<or> has_suffix (url_path r) ''.woff2'' \<longrightarrow>
      page_handler W r = Some (file_server W r (header_set ''Cache-Control'' ''public, max-age=31536000, immutable'' fresh_response))) \<and>
    (raw_query r = '''' \<and> \<not> has_suffix (url_path r) ''.woff2'' \<longrightarrow>
      page_handler W r = Some (file_server W r (header_set ''Cache-Control'' ''public, max-age=300'' fresh_response)))"
proof -
  have h: "page_handler W r = Some (serve_asset W r fresh_response)"
    using assms by (simp add: page_handler_def Let_def has_prefix_def)
  have "query_get (''v='' @ hashAssets (asset_tree W)) ''v'' = hashAssets (asset_tree W)"
    by (rule query_get_version) (simp add: hashAssets_text)
  moreover have "hashAssets (asset_tree W) \<noteq> ''''" using hashAssets_text(1) [of "asset_tree W"] by auto
  moreover have "query_get '''' ''v'' = ''''" by (simp add: query_get_def query_pair_def map_filter_simps)
  ultimately show ?thesis by (auto simp: h serve_asset_def hashAssets_text(1))
qed

end
