(* ===== verification/Startup_Props.thy ===== *)
theory Startup_Props
  imports Startup Pages_Props
begin

text \<open>
  The properties of the start: the leaves browsers pin, the hash the page gives out and the
  certificate behind it, the CA over restarts, and the hashes the legacy binary publishes.
\<close>

section \<open>Names and templates\<close>

lemma legacy_splitComma_loop_agrees:
  "i \<le> Suc (length s) \<Longrightarrow> legacy_splitComma_loop (Suc (length s) - i) s i start out = splitComma_loop s i start out"
proof (induction s i start out rule: splitComma_loop.induct)
  case (1 s i start out)
  show ?case
  proof (cases "i \<le> length s")
    case True
    then have "Suc (length s) - i = Suc (Suc (length s) - (i + 1))" by simp
    with 1(1,2) [OF True] True show ?thesis by (subst splitComma_loop.simps) simp
  next
    case False
    with 1(3) show ?thesis by (subst splitComma_loop.simps) simp
  qed
qed

lemma legacy_splitComma_agrees: "legacy_splitComma = splitComma"
  using legacy_splitComma_loop_agrees [of 0] by (simp add: fun_eq_iff legacy_splitComma_def splitComma_def del: legacy_splitComma_loop.simps)

definition with_hosts :: "string list \<Rightarrow> certificate \<Rightarrow> certificate" where
  "with_hosts hosts t = t\<lparr>ip_addresses := ip_addresses t @ List.map_filter parse_ip hosts,
     dns_names := dns_names t @ filter (\<lambda>h. parse_ip h = None) hosts\<rparr>"

lemma addHosts_with: "addHosts t hosts = with_hosts hosts t"
  by (induction t hosts rule: addHosts.induct) (auto simp: with_hosts_def map_filter_simps split: option.splits)

lemma with_hosts_sel [simp]:
  "is_CA (with_hosts hosts t) = is_CA t" "key_usage (with_hosts hosts t) = key_usage t"
  "ext_usages (with_hosts hosts t) = ext_usages t" "not_before (with_hosts hosts t) = not_before t"
  "not_after (with_hosts hosts t) = not_after t"
  "ip_addresses (with_hosts hosts t) = ip_addresses t @ List.map_filter parse_ip hosts"
  "dns_names (with_hosts hosts t) = dns_names t @ filter (\<lambda>h. parse_ip h = None) hosts"
  by (simp_all add: with_hosts_def)

text \<open>What both binaries ask of a leaf, with the key usage it carries.\<close>

definition leaf_template :: "'k draw \<Rightarrow> string list \<Rightarrow> int \<Rightarrow> certificate \<Rightarrow> bool" where
  "leaf_template m hosts usage t \<longleftrightarrow>
     \<not> is_CA t \<and> key_usage t = usage \<and> ext_usages t = [ServerAuth] \<and>
     not_before t = fst (minted m) - hour \<and> not_after t = snd (minted m) + 10 * day \<and>
     ip_addresses t = List.map_filter parse_ip hosts \<and> dns_names t = filter (\<lambda>h. parse_ip h = None) hosts"

lemma mintWTCert_leaf:
  assumes "mintWTCert C m hosts = Inr (cert, hash)"
  shows "\<exists>t key der. create_cert C (signing m) t t (public_of C key) key = Some der \<and> drawn_key m = Some key \<and>
    leaf_template m hosts DigitalSignature t \<and> cert = \<lparr>chain = [der], priv = key\<rparr> \<and> hash = cert_hash_of der"
  using assms
  by (auto simp: mintWTCert_def Let_def addHosts_with newTemplate_def split: option.splits)
    (rule exI, rule conjI, assumption, simp add: leaf_template_def)

lemma mintLeaf_leaf:
  assumes "mintLeaf C m hosts usage = Inr (cert, hash)"
  shows "\<exists>t key der. create_cert C (signing m) t t (public_of C key) key = Some der \<and> drawn_key m = Some key \<and>
    leaf_template m hosts usage t \<and> cert = \<lparr>chain = [der], priv = key\<rparr> \<and> hash = cert_hash_of der"
  using assms
  by (auto simp: mintLeaf_def Let_def addHosts_with split: option.splits)
    (rule exI, rule conjI, assumption, simp add: leaf_template_def)

text \<open>A concrete crypto library: a certificate is the name it was asked for.\<close>

definition toy_crypto :: "unit crypto" where
  "toy_crypto = \<lparr>public_of = (\<lambda>k. ''pub''), create_cert = (\<lambda>n t p pub k. Some (common_name t)),
     parse_cert = (\<lambda>b. Some (newTemplate \<lparr>drawn_key = Some (), drawn_serial = None, signing = 0, minted = (0, 0)\<rparr> b 30)),
     marshal_key = (\<lambda>k. ''key''), parse_key = (\<lambda>b. Some ()), pem_encode = (\<lambda>t b. b), pem_decode = Some\<rparr>"

definition toy_draw :: "instant \<Rightarrow> unit draw" where
  "toy_draw t = \<lparr>drawn_key = Some (), drawn_serial = Some 7, signing = 0, minted = (t, t + 1)\<rparr>"

definition toy_io :: "unit main_io" where
  "toy_io = \<lparr>mkdir_all = (\<lambda>_. True), stale_removed = True, ca_files = \<lparr>reads = (\<lambda>_. True), writes = (\<lambda>_. Some 10000)\<rparr>,
     load_key_pair = (\<lambda>_ _. None), tcp_listens = (\<lambda>_. True)\<rparr>"

lemma mintPageChain_leaf:
  assumes "mintPageChain C m\<^sub>1 m\<^sub>2 io hosts d = (Inr (cert, caDER), d')"
  shows "\<exists>caKey key t caCert der. loadOrMintCA C m\<^sub>1 io d = (Inr (caKey, caDER), d') \<and>
    create_cert C (signing m\<^sub>2) t caCert (public_of C key) caKey = Some der \<and> drawn_key m\<^sub>2 = Some key \<and>
    parse_cert C caDER = Some caCert \<and> leaf_template m\<^sub>2 hosts DigitalSignature t \<and>
    cert = \<lparr>chain = [der, caDER], priv = key\<rparr>"
  using assms
  by (auto simp: mintPageChain_def Let_def addHosts_with newTemplate_def split: option.splits sum.splits prod.splits)
    (rule exI, rule conjI, assumption, simp add: leaf_template_def)

lemma main_certs_hash:
  assumes "main_certs C fl io m\<^sub>0 m\<^sub>1 m\<^sub>2 d = (Inr cs, d')"
  shows "if wt_cert_mode fl = ''le'' then page_hash cs = '''' \<and> Some (wt_cert cs) = load_key_pair io (cert_file fl) (key_file fl) \<and> page_cert cs = wt_cert cs
    else page_hash cs = cert_hash_of (hd (chain (wt_cert cs))) \<and> (\<exists>x. chain (page_cert cs) = [x, ca_DER cs]) \<and>
      (wt_cert_mode fl = ''ca'' \<longrightarrow> page_cert cs = wt_cert cs)"
  using assms mintWTCert_leaf [of C m\<^sub>0 "splitComma (sans fl)"] mintPageChain_leaf [of C m\<^sub>1 m\<^sub>2 "ca_files io" "splitComma (sans fl)" d]
  by (auto simp: main_certs_def Let_def split: sum.splits prod.splits option.splits if_splits)

text \<open>
  The leaf the main binary gives out to be pinned, self-signed or, in the CA's mode, the page's
  own, and the draw it is made from.
\<close>

lemma main_certs_pinned:
  assumes "main_certs C fl io m\<^sub>0 m\<^sub>1 m\<^sub>2 d = (Inr cs, d')" and "wt_cert_mode fl \<noteq> ''le''"
  shows "\<exists>t key der parent signer u. create_cert C (signing (if wt_cert_mode fl = ''ca'' then m\<^sub>2 else m\<^sub>0)) t parent (public_of C key) signer = Some der \<and>
    (if wt_cert_mode fl = ''ca'' then chain (wt_cert cs) = [der, ca_DER cs] \<and> parse_cert C (ca_DER cs) = Some parent
      else chain (wt_cert cs) = [der] \<and> parent = t \<and> signer = key) \<and>
    priv (wt_cert cs) = key \<and> page_hash cs = cert_hash_of der \<and> u = DigitalSignature \<and>
    leaf_template (if wt_cert_mode fl = ''ca'' then m\<^sub>2 else m\<^sub>0) (splitComma (sans fl)) u t"
proof -
  let ?hosts = "splitComma (sans fl)"
  obtain cert hash pageCert caDER where c: "mintWTCert C m\<^sub>0 ?hosts = Inr (cert, hash)"
      "mintPageChain C m\<^sub>1 m\<^sub>2 (ca_files io) ?hosts d = (Inr (pageCert, caDER), d')"
      "cs = (if wt_cert_mode fl = ''ca'' then \<lparr>wt_cert = pageCert, page_cert = pageCert, page_hash = cert_hash_of (chain pageCert ! 0), ca_DER = caDER\<rparr>
        else \<lparr>wt_cert = cert, page_cert = pageCert, page_hash = hash, ca_DER = caDER\<rparr>)"
    using assms by (auto simp: main_certs_def Let_def split: sum.splits prod.splits if_splits)
  show ?thesis
  proof (cases "wt_cert_mode fl = ''ca''")
    case True
    then show ?thesis using mintPageChain_leaf [OF c(2)] by (auto simp: c(3)) blast
  next
    case False
    then show ?thesis using mintWTCert_leaf [OF c(1)] by (auto simp: c(3))
  qed
qed

text \<open>
  C25: Every leaf a browser is asked to pin can be pinned: the one whose hash the main binary
  gives out, self-signed or, in the CA's mode, the page's own under the CA, and each of the
  legacy binary's. Whichever it is, it is valid now, for no longer than the fourteen days
  \<open>serverCertificateHashes\<close> allows, for servers only and not a CA; it carries the flag's
  addresses and names, in order, each of them whole and none empty; it is served first in its
  chain, with the key it was made for; and the hash given out is its own, 44 characters.
\<close>

theorem leaf_pinnable:
  assumes "main_certs C fl io m\<^sub>0 m\<^sub>1 m\<^sub>2 d = (Inr cs, d') \<and> wt_cert_mode fl \<noteq> ''le'' \<and> cert = wt_cert cs \<and> hash = page_hash cs \<and>
        s = sans fl \<and> m = (if wt_cert_mode fl = ''ca'' then m\<^sub>2 else m\<^sub>0) \<or>
      mintLeaf C m (splitComma s) usage = Inr (cert, hash)"
    and "fst (minted m) \<le> snd (minted m)" and "snd (minted m) \<le> fst (minted m) + day"
  shows "\<exists>t key der parent signer. create_cert C (signing m) t parent (public_of C key) signer = Some der \<and>
    (chain cert = [der] \<and> parent = t \<and> signer = key \<or>
      (\<exists>ca. chain cert = [der, ca] \<and> parse_cert C ca = Some parent)) \<and> priv cert = key \<and>
    hash = cert_hash_of der \<and> length hash = 44 \<and>
    \<not> is_CA t \<and> ext_usages t = [ServerAuth] \<and> key_usage t \<in> {DigitalSignature, usage} \<and>
    not_before t < fst (minted m) \<and> snd (minted m) < not_after t \<and> not_after t - not_before t \<le> 14 * day \<and>
    ip_addresses t = List.map_filter parse_ip (splitComma s) \<and>
    dns_names t = filter (\<lambda>h. parse_ip h = None) (splitComma s) \<and>
    (\<forall>h \<in> set (splitComma s). h \<noteq> [] \<and> CHR '','' \<notin> set h)"
proof -
  obtain t key der parent signer u where t: "leaf_template m (splitComma s) u t" "u \<in> {DigitalSignature, usage}"
      "create_cert C (signing m) t parent (public_of C key) signer = Some der" "priv cert = key" "hash = cert_hash_of der"
      "chain cert = [der] \<and> parent = t \<and> signer = key \<or> (\<exists>ca. chain cert = [der, ca] \<and> parse_cert C ca = Some parent)"
    using assms(1)
  proof
    assume l: "mintLeaf C m (splitComma s) usage = Inr (cert, hash)"
    show ?thesis using mintLeaf_leaf [OF l] that by fastforce
  next
    assume c: "main_certs C fl io m\<^sub>0 m\<^sub>1 m\<^sub>2 d = (Inr cs, d') \<and> wt_cert_mode fl \<noteq> ''le'' \<and> cert = wt_cert cs \<and> hash = page_hash cs \<and>
        s = sans fl \<and> m = (if wt_cert_mode fl = ''ca'' then m\<^sub>2 else m\<^sub>0)"
    show ?thesis using main_certs_pinned [of C fl io m\<^sub>0 m\<^sub>1 m\<^sub>2 d cs d'] c that by (auto split: if_splits)
  qed
  have "\<forall>h \<in> set (splitComma s). h \<noteq> [] \<and> CHR '','' \<notin> set h"
    by (auto simp: splitComma_split dest: split_pieces)
  moreover have "length hash = 44" by (simp add: t(5) cert_hash_of_def length_encoded_hash)
  ultimately show ?thesis
    using t assms(2,3)
    by (intro exI [of _ t] exI [of _ key] exI [of _ der] exI [of _ parent] exI [of _ signer]) (simp add: leaf_template_def)
qed

theorem leaf_pinnable_witness:
  "\<exists>cs d' der. main_certs toy_crypto (main_defaults\<lparr>wt_cert_mode := ''ca''\<rparr>) toy_io (toy_draw 0) (toy_draw 0) (toy_draw 5) [] = (Inr cs, d') \<and>
    chain (wt_cert cs) = [der, ''wt-lab local CA''] \<and> page_hash cs = cert_hash_of der \<and> length (page_hash cs) = 44"
proof -
  obtain cs d' where c: "main_certs toy_crypto (main_defaults\<lparr>wt_cert_mode := ''ca''\<rparr>) toy_io (toy_draw 0) (toy_draw 0) (toy_draw 5) [] = (Inr cs, d')"
      "chain (wt_cert cs) = [''wt-lab page'', ''wt-lab local CA'']"
    by (simp add: main_certs_def main_defaults_def toy_io_def toy_draw_def mintWTCert_def mintPageChain_def loadOrMintCA_def
        read_file_def toy_crypto_def addHosts_with newTemplate_def Let_def with_hosts_def)
  have "length (page_hash cs) = 44 \<and> page_hash cs = cert_hash_of ''wt-lab page''"
    using leaf_pinnable [OF disjI1, of toy_crypto "main_defaults\<lparr>wt_cert_mode := ''ca''\<rparr>" toy_io "toy_draw 0" "toy_draw 0" "toy_draw 5"
        "[]" cs d' "wt_cert cs" "page_hash cs" "sans main_defaults" "toy_draw 5"] c by (auto simp: toy_draw_def main_defaults_def)
  with c show ?thesis by blast
qed

section \<open>The hash the page gives out\<close>

text \<open>
  C26: The hash the page gives out at \<open>/hash\<close> is that of the certificate all three ports of the
  main binary serve, in the self-signed mode and in the CA's; with the real chain it is empty,
  so that nothing is pinned. Outside the real chain's mode the page's own chain ends in the CA
  the plain-http door hands out, and the ports are the flag's, 443 and the trio's.
\<close>

theorem served_hash:
  assumes "main_start C fl io m\<^sub>0 m\<^sub>1 m\<^sub>2 d shared = (Inr P, d', shared')" and "cs = keys_served P"
    and "cert_hash W = page_hash cs" and "url_path r = ''/hash''"
  shows "page_handler W r = Some \<lparr>status = 200, resp_header = [''Content-Type'' \<mapsto> ''text/plain''],
      body = (if wt_cert_mode fl = ''le'' then '''' else cert_hash_of (hd (chain (wt_cert cs))))\<rparr> \<and>
    map listen_port (wt_listeners P) = [port fl, 443, trio_port fl] \<and> (\<forall>l \<in> set (wt_listeners P). served l = wt_cert cs) \<and>
    (wt_cert_mode fl = ''le'' \<longrightarrow> Some (wt_cert cs) = load_key_pair io (cert_file fl) (key_file fl)) \<and>
    (wt_cert_mode fl \<noteq> ''le'' \<longrightarrow> last (chain (page_cert cs)) = body (ca_handler (ca_DER cs)))"
proof -
  obtain d'' where P: "main_certs C fl io m\<^sub>0 m\<^sub>1 m\<^sub>2 d = (Inr cs, d'')" "wt_listeners P = main_listeners fl (wt_cert cs)"
    using assms(1,2) by (auto simp: main_start_def split: if_splits option.splits prod.splits sum.splits)
  have "page_handler W r = Some (resp_write (page_hash cs) (header_set ''Content-Type'' ''text/plain'' fresh_response))"
    using assms(3,4) by (simp add: page_handler_def Let_def has_prefix_def)
  then show ?thesis
    using main_certs_hash [OF P(1)]
    by (auto simp: P(2) main_listeners_def startWT_def resp_write_def header_set_def fresh_response_def ca_handler_def
        split: if_splits)
qed

lemma toy_start:
  "\<exists>P d' shared'. main_start toy_crypto main_defaults toy_io (toy_draw 0) (toy_draw 0) (toy_draw 0) [] [] = (Inr P, d', shared') \<and>
    wt_cert (keys_served P) = \<lparr>chain = [''wt-lab''], priv = ()\<rparr>"
  by (simp add: main_start_def parsePages_Some newObserver_def main_certs_def main_defaults_def toy_io_def toy_draw_def
      mintWTCert_def mintPageChain_def loadOrMintCA_def read_file_def toy_crypto_def addHosts_with newTemplate_def Let_def
      with_hosts_def)

theorem served_hash_witness:
  "\<exists>w. page_handler (sample_web\<lparr>cert_hash := cert_hash_of ''wt-lab''\<rparr>) (get ''/hash'') = Some w \<and> body w = cert_hash_of ''wt-lab''"
proof -
  obtain P d' shared' where P: "main_start toy_crypto main_defaults toy_io (toy_draw 0) (toy_draw 0) (toy_draw 0) [] [] = (Inr P, d', shared')"
      "wt_cert (keys_served P) = \<lparr>chain = [''wt-lab''], priv = ()\<rparr>" using toy_start by blast
  let ?W = "sample_web\<lparr>cert_hash := page_hash (keys_served P)\<rparr>"
  have "page_handler ?W (get ''/hash'') = Some \<lparr>status = 200, resp_header = [''Content-Type'' \<mapsto> ''text/plain''],
      body = cert_hash_of ''wt-lab''\<rparr>"
    using served_hash [OF P(1) refl, of ?W "get ''/hash''"] by (simp add: P(2) main_defaults_def get_def)
  moreover from this have "page_hash (keys_served P) = cert_hash_of ''wt-lab''"
    by (simp add: page_handler_def Let_def has_prefix_def get_def resp_write_def header_set_def fresh_response_def)
  ultimately show ?thesis by simp
qed

section \<open>The CA over restarts\<close>

text \<open>What is relied on: a block that was encoded decodes, and a key that was marshalled parses.\<close>

definition formats_ok :: "'k crypto \<Rightarrow> bool" where
  "formats_ok C \<longleftrightarrow> (\<forall>t \<in> {''EC PRIVATE KEY'', ''CERTIFICATE''}. \<forall>b. pem_decode C (pem_encode C t b) = Some b) \<and> (\<forall>k. parse_key C (marshal_key C k) = Some k)"

lemma ca_reload:
  assumes "formats_ok C" and "loadOrMintCA C m io d = (Inr (key, der), d')"
    and "writes io ''ca.key'' = Some i" and "length (pem_encode C ''EC PRIVATE KEY'' (marshal_key C key)) \<le> i"
    and "writes io ''ca.pem'' = Some j" and "length (pem_encode C ''CERTIFICATE'' der) \<le> j"
    and "reads io' ''ca.key''" and "reads io' ''ca.pem''"
  shows "loadOrMintCA C m' io' d' = (Inr (key, der), d')"
proof (cases "read_file io d ''ca.key'' = None \<or> read_file io d ''ca.pem'' = None")
  case True
  then have "d' = write_file io ''ca.pem'' (pem_encode C ''CERTIFICATE'' der)
      (write_file io ''ca.key'' (pem_encode C ''EC PRIVATE KEY'' (marshal_key C key)) d)"
    using assms(2) by (auto simp: loadOrMintCA_def Let_def split: option.splits)
  with assms(3-6) have "map_of d' ''ca.key'' = Some (pem_encode C ''EC PRIVATE KEY'' (marshal_key C key))"
      "map_of d' ''ca.pem'' = Some (pem_encode C ''CERTIFICATE'' der)"
    by (simp_all add: write_file_def update_conv)
  with assms(1,7,8) show ?thesis by (simp add: loadOrMintCA_def read_file_def formats_ok_def)
next
  case False
  then obtain a b where f: "read_file io d ''ca.key'' = Some a" "read_file io d ''ca.pem'' = Some b" by auto
  with assms(2) have "d' = d" by (auto simp: loadOrMintCA_def)
  moreover from f have "read_file io' d ''ca.key'' = Some a" "read_file io' d ''ca.pem'' = Some b"
    using assms(7,8) by (auto simp: read_file_def split: if_splits)
  ultimately show ?thesis using assms(2) f by (simp add: loadOrMintCA_def)
qed

text \<open>
  C27: A device that installed the CA once keeps trusting the pages after restarts: once a start
  has minted or loaded the CA and its two files were written whole and can be read, every
  later start, whatever it draws and whenever it happens, hands out the same CA, changes
  neither file, and signs its page leaf with the same key under the same CA certificate. The
  time is not looked at, so this goes on after the thirty days the CA was minted for.
\<close>

theorem ca_persists:
  assumes "formats_ok C" and "mintPageChain C m\<^sub>1 m\<^sub>2 io hosts d = (Inr (cert, caDER), d')"
    and "writes io ''ca.key'' = Some i" and "\<And>k. length (pem_encode C ''EC PRIVATE KEY'' (marshal_key C k)) \<le> i"
    and "writes io ''ca.pem'' = Some j" and "length (pem_encode C ''CERTIFICATE'' caDER) \<le> j"
    and "reads io' ''ca.key''" and "reads io' ''ca.pem''"
    and "mintPageChain C m\<^sub>1' m\<^sub>2' io' hosts' d' = (Inr (cert', caDER'), d'')"
  shows "caDER' = caDER \<and> d'' = d' \<and> last (chain cert') = caDER \<and>
    (\<exists>caKey caCert t t' key key'. parse_cert C caDER = Some caCert \<and>
      create_cert C (signing m\<^sub>2) t caCert (public_of C key) caKey = Some (hd (chain cert)) \<and>
      create_cert C (signing m\<^sub>2') t' caCert (public_of C key') caKey = Some (hd (chain cert')))"
proof -
  obtain caKey key t caCert der where a: "loadOrMintCA C m\<^sub>1 io d = (Inr (caKey, caDER), d')"
      "create_cert C (signing m\<^sub>2) t caCert (public_of C key) caKey = Some der" "parse_cert C caDER = Some caCert"
      "cert = \<lparr>chain = [der, caDER], priv = key\<rparr>"
    using mintPageChain_leaf [OF assms(2)] by blast
  obtain caKey' key' t' caCert' der' where b: "loadOrMintCA C m\<^sub>1' io' d' = (Inr (caKey', caDER'), d'')"
      "create_cert C (signing m\<^sub>2') t' caCert' (public_of C key') caKey' = Some der'" "parse_cert C caDER' = Some caCert'"
      "cert' = \<lparr>chain = [der', caDER'], priv = key'\<rparr>"
    using mintPageChain_leaf [OF assms(9)] by blast
  from ca_reload [OF assms(1) a(1) assms(3,4,5,6,7,8), of m\<^sub>1'] b(1)
  have "caKey' = caKey" "caDER' = caDER" "d'' = d'" by simp_all
  with a b show ?thesis by auto
qed

lemma toy_formats: "formats_ok toy_crypto"
  by (simp add: formats_ok_def toy_crypto_def)

theorem ca_persists_witness:
  "\<exists>cert caDER d' cert' caDER' d''. mintPageChain toy_crypto (toy_draw 0) (toy_draw 0) (ca_files toy_io) [] [] = (Inr (cert, caDER), d') \<and>
    mintPageChain toy_crypto (toy_draw (40 * day)) (toy_draw (40 * day)) (ca_files toy_io) [] d' = (Inr (cert', caDER'), d'') \<and>
    caDER' = caDER \<and> d'' = d'"
proof -
  let ?chain = "\<lambda>t d. mintPageChain toy_crypto (toy_draw t) (toy_draw t) (ca_files toy_io) [] d"
  let ?d = "[(''ca.key'', ''key''), (''ca.pem'', ''wt-lab local CA'')]"
  note defs = mintPageChain_def loadOrMintCA_def read_file_def write_file_def toy_crypto_def toy_draw_def toy_io_def newTemplate_def
  have a: "?chain 0 [] = (Inr (\<lparr>chain = [''wt-lab page'', ''wt-lab local CA''], priv = ()\<rparr>, ''wt-lab local CA''), ?d)"
    by (simp add: defs Let_def)
  have b: "?chain (40 * day) ?d = (Inr (\<lparr>chain = [''wt-lab page'', ''wt-lab local CA''], priv = ()\<rparr>, ''wt-lab local CA''), ?d)"
    by (simp add: defs Let_def)
  have io: "writes (ca_files toy_io) f = Some 10000" "reads (ca_files toy_io) f" for f by (simp_all add: toy_io_def)
  have l: "length (pem_encode toy_crypto ''EC PRIVATE KEY'' (marshal_key toy_crypto k)) \<le> 10000"
    "length (pem_encode toy_crypto ''CERTIFICATE'' ''wt-lab local CA'') \<le> 10000" for k
    by (simp_all add: toy_crypto_def)
  from ca_persists [OF toy_formats a io(1) l(1) io(1) l(2) io(2) io(2) b] a b show ?thesis by blast
qed

text \<open>What a torn write leaves: a key that reads and a certificate that is no block.\<close>

lemma torn_ca_reload:
  assumes "formats_ok C" and "loadOrMintCA C m io d = (Inr (key, der), d')" and "map_of d ''ca.pem'' = None"
    and "writes io ''ca.key'' = Some i" and "length (pem_encode C ''EC PRIVATE KEY'' (marshal_key C key)) \<le> i"
    and "writes io ''ca.pem'' = Some j" and "pem_decode C (take j (pem_encode C ''CERTIFICATE'' der)) = None"
    and "reads io' ''ca.key''" and "reads io' ''ca.pem''"
  shows "loadOrMintCA C m' io' d' = (Inl Panicked, d')"
proof -
  have "d' = write_file io ''ca.pem'' (pem_encode C ''CERTIFICATE'' der)
      (write_file io ''ca.key'' (pem_encode C ''EC PRIVATE KEY'' (marshal_key C key)) d)"
    using assms(2,3) by (auto simp: loadOrMintCA_def read_file_def Let_def split: option.splits if_splits)
  with assms(4-6) have "map_of d' ''ca.key'' = Some (pem_encode C ''EC PRIVATE KEY'' (marshal_key C key))"
      "map_of d' ''ca.pem'' = Some (take j (pem_encode C ''CERTIFICATE'' der))"
    by (simp_all add: write_file_def update_conv)
  with assms(1,7-9) show ?thesis by (simp add: loadOrMintCA_def read_file_def formats_ok_def)
qed

lemma main_certs_chain:
  assumes "main_certs C fl io m\<^sub>0 m\<^sub>1 m\<^sub>2 d = (Inr cs, d')"
  shows "\<exists>cert. mintPageChain C m\<^sub>1 m\<^sub>2 (ca_files io) (splitComma (sans fl)) d = (Inr (cert, ca_DER cs), d')"
  using assms by (auto simp: main_certs_def Let_def split: sum.splits prod.splits option.splits if_splits)

lemma main_start_ca:
  assumes "main_start C fl io m\<^sub>0 m\<^sub>1 m\<^sub>2 d shared = (Inr P, d', shared')"
  shows "\<exists>key. loadOrMintCA C m\<^sub>1 (ca_files io) d = (Inr (key, ca_DER (keys_served P)), d')"
proof -
  obtain cs where c: "main_certs C fl io m\<^sub>0 m\<^sub>1 m\<^sub>2 d = (Inr cs, d')" "keys_served P = cs"
    using assms by (auto simp: main_start_def split: if_splits option.splits prod.splits sum.splits)
  obtain cert where "mintPageChain C m\<^sub>1 m\<^sub>2 (ca_files io) (splitComma (sans fl)) d = (Inr (cert, ca_DER cs), d')"
    using main_certs_chain [OF c(1)] by blast
  from mintPageChain_leaf [OF this] c(2) show ?thesis by blast
qed

lemma main_certs_no_ca:
  assumes "loadOrMintCA C m\<^sub>1 (ca_files io) d = (Inl f, d)"
  shows "\<exists>f. main_certs C fl io m\<^sub>0 m\<^sub>1 m\<^sub>2 d = (Inl f, d)"
  using assms by (auto simp: main_certs_def mintPageChain_def Let_def split: sum.split prod.split)

text \<open>
  C28: A CA file that was not written whole stops every later start: a start that found no
  certificate and whose write of \<open>ca.pem\<close> was cut short, which it does not notice, comes up; but
  from then on every start that can read the two files fails, whatever it draws and whatever
  its flags, and leaves the files as they are.
\<close>

theorem torn_ca_stops_starts:
  assumes "main_start C fl io m\<^sub>0 m\<^sub>1 m\<^sub>2 d shared = (Inr P, d', shared')" and "formats_ok C" and "map_of d ''ca.pem'' = None"
    and "writes (ca_files io) ''ca.key'' = Some i" and "\<And>k. length (pem_encode C ''EC PRIVATE KEY'' (marshal_key C k)) \<le> i"
    and "writes (ca_files io) ''ca.pem'' = Some j"
    and "pem_decode C (take j (pem_encode C ''CERTIFICATE'' (ca_DER (keys_served P)))) = None"
    and "reads (ca_files io') ''ca.key''" and "reads (ca_files io') ''ca.pem''"
  shows "\<exists>f shared''. main_start C fl' io' m\<^sub>0' m\<^sub>1' m\<^sub>2' d' other = (Inl f, d', shared'')"
proof -
  obtain key where "loadOrMintCA C m\<^sub>1 (ca_files io) d = (Inr (key, ca_DER (keys_served P)), d')"
    using main_start_ca [OF assms(1)] by blast
  from torn_ca_reload [OF assms(2) this assms(3-9)] have "loadOrMintCA C m\<^sub>1' (ca_files io') d' = (Inl Panicked, d')" .
  from main_certs_no_ca [OF this, of fl' m\<^sub>0' m\<^sub>2'] show ?thesis
    by (auto simp: main_start_def split: option.split prod.split)
qed

text \<open>The concrete library again, with blocks that end in a line of their own.\<close>

definition block_crypto :: "unit crypto" where
  "block_crypto = toy_crypto\<lparr>pem_encode := (\<lambda>t b. b @ ''-----''),
     pem_decode := (\<lambda>b. if has_suffix b ''-----'' then Some (take (length b - 5) b) else None)\<rparr>"

theorem torn_ca_stops_starts_witness:
  "\<exists>P d' f shared' shared''.
    main_start block_crypto main_defaults (toy_io\<lparr>ca_files := \<lparr>reads = (\<lambda>_. True), writes = (\<lambda>f. Some (if f = ''ca.pem'' then 8 else 100))\<rparr>\<rparr>)
      (toy_draw 0) (toy_draw 0) (toy_draw 0) [] [] = (Inr P, d', shared') \<and>
    main_start block_crypto main_defaults toy_io (toy_draw 9) (toy_draw 9) (toy_draw 9) d' [] = (Inl f, d', shared'')"
proof -
  let ?io = "toy_io\<lparr>ca_files := \<lparr>reads = (\<lambda>_. True), writes = (\<lambda>f. Some (if f = ''ca.pem'' then 8 else 100))\<rparr>\<rparr>"
  obtain P d' s where P: "main_start block_crypto main_defaults ?io (toy_draw 0) (toy_draw 0) (toy_draw 0) [] [] = (Inr P, d', s)"
      "ca_DER (keys_served P) = ''wt-lab local CA''"
    by (simp add: main_start_def parsePages_Some newObserver_def main_certs_def main_defaults_def toy_io_def toy_draw_def block_crypto_def
        mintWTCert_def mintPageChain_def loadOrMintCA_def read_file_def toy_crypto_def addHosts_with newTemplate_def Let_def
        with_hosts_def)
  have f: "formats_ok block_crypto"
    by (auto simp: formats_ok_def block_crypto_def toy_crypto_def has_suffix_append)
  show ?thesis
    using torn_ca_stops_starts [OF P(1) f, of 100 8 toy_io main_defaults "toy_draw 9" "toy_draw 9" "toy_draw 9" "[]"] P
    by (auto simp: block_crypto_def toy_crypto_def toy_io_def has_suffix_def)
qed

section \<open>Hashes by file\<close>

lemma dec_inject: "dec m = dec n \<Longrightarrow> m = n"
  by (metis option.inject unsigned_digits_dec)

lemma itoa_inject: "itoa i = itoa j \<longleftrightarrow> i = j"
proof
  assume e: "itoa i = itoa j"
  have minus: "has_prefix (itoa k) ''-'' \<longleftrightarrow> k < 0" for k using dec_no_sign(1) by (simp add: itoa_def)
  from e minus [of i] minus [of j] have "i < 0 \<longleftrightarrow> j < 0" by simp
  with e dec_inject show "i = j" by (auto simp: itoa_def split: if_splits dest!: dec_inject)
qed simp

lemma itoa_port: "0 \<le> p \<Longrightarrow> ''hash'' @ itoa p = hash_file (nat p)"
  by (simp add: itoa_def hash_file_def)

lemma publish_done:
  assumes "publish io p h d = (Inr u, d')"
  shows "map_of d' = (map_of d)(''hash'' @ itoa p \<mapsto> h)"
  using assms by (auto simp: publish_def write_file_def Let_def update_conv split: option.splits if_splits)

text \<open>What a successful start of the legacy binary leaves behind, and the rungs it serves.\<close>

lemma legacy_start_published:
  assumes "legacy_start C fl io m\<^sub>1 m\<^sub>2 d = (Inr (ob, rungs), d')"
  shows "\<exists>real pinned certSign d\<^sub>0. rungs = legacy_rungs fl real pinned certSign \<and>
    map_of d' = (map_of d\<^sub>0)(''hash'' @ itoa (pinned_port fl) \<mapsto> cert_hash_of (hd (chain pinned)),
      ''hash'' @ itoa (cert_sign_port fl) \<mapsto> cert_hash_of (hd (chain certSign)),
      ''hash'' @ itoa (alt_port fl) \<mapsto> cert_hash_of (hd (chain pinned)))"
proof -
  let ?hosts = "legacy_splitComma (legacy_sans fl)"
  obtain real pinned h certSign h' d\<^sub>0 d\<^sub>1 d\<^sub>2 u v w where s: "mintLeaf C m\<^sub>1 ?hosts DigitalSignature = Inr (pinned, h)"
      "mintLeaf C m\<^sub>2 ?hosts (DigitalSignature OR CertSign) = Inr (certSign, h')"
      "publish (publishing io) (pinned_port fl) h d\<^sub>0 = (Inr u, d\<^sub>1)"
      "publish (publishing io) (cert_sign_port fl) h' d\<^sub>1 = (Inr v, d\<^sub>2)"
      "publish (publishing io) (alt_port fl) h d\<^sub>2 = (Inr w, d')" "rungs = legacy_rungs fl real pinned certSign"
    using assms by (auto simp: legacy_start_def Let_def split: if_splits option.splits prod.splits sum.splits)
  have "h = cert_hash_of (hd (chain pinned))" "h' = cert_hash_of (hd (chain certSign))"
    using mintLeaf_leaf [OF s(1)] mintLeaf_leaf [OF s(2)] by auto
  with publish_done [OF s(3)] publish_done [OF s(4)] publish_done [OF s(5)] s(6) show ?thesis by auto
qed

text \<open>
  C4: The hashes travel between the binaries: after a start of the legacy binary that wrote its
  files, the page server of the main binary answers \<open>/hash\<close> followed by the port of any of its
  three pinned rungs with exactly the hash of the certificate that rung serves, the port that
  only differs in its number included.
\<close>

theorem published_hash_shown:
  assumes "legacy_start C fl io m\<^sub>1 m\<^sub>2 d = (Inr (ob, rungs), hash_dir W)"
    and "distinct [legacy_port fl, pinned_port fl, cert_sign_port fl, alt_port fl, probe_port fl]"
    and "g \<in> set rungs" and "rung_port g \<in> {pinned_port fl, cert_sign_port fl, alt_port fl}"
    and "0 \<le> rung_port g" and "rung_port g < 65536" and "legible W (hash_file (nat (rung_port g)))"
    and "url_path r = ''/hash'' @ dec (nat (rung_port g))"
  shows "page_handler W r = Some \<lparr>status = 200, resp_header = [''Content-Type'' \<mapsto> ''text/plain''],
    body = cert_hash_of (hd (chain (rung_cert g)))\<rparr>"
proof -
  obtain real pinned certSign d\<^sub>0 where s: "rungs = legacy_rungs fl real pinned certSign"
    "map_of (hash_dir W) = (map_of d\<^sub>0)(''hash'' @ itoa (pinned_port fl) \<mapsto> cert_hash_of (hd (chain pinned)),
      ''hash'' @ itoa (cert_sign_port fl) \<mapsto> cert_hash_of (hd (chain certSign)),
      ''hash'' @ itoa (alt_port fl) \<mapsto> cert_hash_of (hd (chain pinned)))"
    using legacy_start_published [OF assms(1)] by blast
  have "rung_port g = pinned_port fl \<and> rung_cert g = pinned \<or> rung_port g = cert_sign_port fl \<and> rung_cert g = certSign \<or>
      rung_port g = alt_port fl \<and> rung_cert g = pinned"
    using assms(2-4) unfolding s(1) legacy_rungs_def serveWT_def by force
  then have "map_of (hash_dir W) (''hash'' @ itoa (rung_port g)) = Some (cert_hash_of (hd (chain (rung_cert g))))"
    using assms(2) by (elim disjE) (simp_all add: s(2) itoa_inject)
  then have f: "file_content (hash_dir W) (hash_file (nat (rung_port g))) = cert_hash_of (hd (chain (rung_cert g)))"
    unfolding itoa_port [OF assms(5)] file_content_def by simp
  have cut: "cut_prefix (url_path r) ''/hash'' = Some (dec (nat (rung_port g)))"
    unfolding assms(8) by (rule cut_prefix_append)
  have "dec (nat (rung_port g)) \<noteq> ''''" by simp
  moreover have "parse_uint16 (dec (nat (rung_port g))) = Some (nat (rung_port g))"
    using assms(5,6) by (intro parse_uint16_dec) simp
  ultimately have "page_handler W r = Some (published_hash W (nat (rung_port g)) fresh_response)"
    using cut assms(8) by (simp add: page_handler_def Let_def has_prefix_def)
  then show ?thesis
    using assms(7) f by (simp add: published_hash_def resp_write_def header_set_def fresh_response_def)
qed

definition toy_legacy_io :: "unit legacy_io" where
  "toy_legacy_io = \<lparr>legacy_mkdir_all = (\<lambda>_. True), legacy_stale_removed = True, legacy_key_pair = (\<lambda>_ _. Some \<lparr>chain = [''real''], priv = ()\<rparr>),
     publishing = \<lparr>reads = (\<lambda>_. True), writes = (\<lambda>_. Some 44)\<rparr>\<rparr>"

lemma toy_legacy_start:
  "\<exists>x d'. legacy_start toy_crypto legacy_defaults toy_legacy_io (toy_draw 0) (toy_draw 0) [] = (Inr x, d')"
  by (simp add: legacy_start_def legacy_newObserver_def mintLeaf_def toy_crypto_def toy_draw_def toy_legacy_io_def
      publish_def cert_hash_of_def length_encoded_hash Let_def)

theorem published_hash_shown_witness:
  "\<exists>W g. rung_port (g :: unit rung) = 6443 \<and>
    page_handler W (get ''/hash6443'') = Some \<lparr>status = 200, resp_header = [''Content-Type'' \<mapsto> ''text/plain''],
      body = cert_hash_of (hd (chain (rung_cert g)))\<rparr>"
proof -
  obtain ob rungs d' where l: "legacy_start toy_crypto legacy_defaults toy_legacy_io (toy_draw 0) (toy_draw 0) [] = (Inr (ob, rungs), d')"
    using toy_legacy_start by auto
  let ?W = "sample_web\<lparr>hash_dir := d'\<rparr>"
  have l': "legacy_start toy_crypto legacy_defaults toy_legacy_io (toy_draw 0) (toy_draw 0) [] = (Inr (ob, rungs), hash_dir ?W)"
    using l by simp
  obtain real pinned certSign where r: "rungs = legacy_rungs legacy_defaults real pinned certSign"
    using legacy_start_published [OF l] by blast
  let ?g = "serveWT '''' 6443 pinned ''altport'' False"
  have g: "?g \<in> set rungs" "rung_port ?g = 6443" by (simp_all add: r legacy_rungs_def legacy_defaults_def serveWT_def)
  have "char_of (54 :: nat) = CHR ''6''" "char_of (52 :: nat) = CHR ''4''" "char_of (51 :: nat) = CHR ''3''" by code_simp+
  then have u: "url_path (get ''/hash6443'') = ''/hash'' @ dec (nat (rung_port ?g))" by (simp add: get_def g(2) num_text.simps digit_char_def)
  have "page_handler ?W (get ''/hash6443'') = Some \<lparr>status = 200, resp_header = [''Content-Type'' \<mapsto> ''text/plain''],
      body = cert_hash_of (hd (chain (rung_cert ?g)))\<rparr>"
    by (intro published_hash_shown [OF l' _ g(1)]) (simp_all add: legacy_defaults_def sample_web_def g(2) u)
  with g(2) show ?thesis by blast
qed

end
