(* ===== verification/Whole.thy ===== *)
theory Whole
  imports Service_Props Startup_Props
begin

text \<open>
  The service and its page together: the notes that the handlers of a running process make are
  the events its observer records, and those of a window, which the page lists, are what the
  journal has grown by since the window opened.
\<close>

section \<open>The journal on file\<close>

text \<open>The calls of \<open>record\<close> that a journal's notes are, whatever the times they were made at.\<close>

definition notes_of :: "call list \<Rightarrow> (string \<times> int \<times> string \<times> string) list" where
  "notes_of cs = map (\<lambda>c. (call_address c, call_port c, call_kind c, call_detail c)) cs"

definition journal_notes :: "('g, 'k) server \<Rightarrow> (string \<times> int \<times> string \<times> string) list" where
  "journal_notes S = map (\<lambda>(a, p, k, x). (a, p, kind_text k, x)) (journal S)"

lemma kind_text_inject [simp]: "kind_text k = kind_text k' \<longleftrightarrow> k = k'"
  by (cases k; cases k') simp_all

text \<open>How many events of a port and a kind an answer lists.\<close>

definition told :: "observedEvent list \<Rightarrow> int \<Rightarrow> kind \<Rightarrow> nat" where
  "told es p k = length (filter (\<lambda>e. event_port e = p \<and> event_kind e = kind_text k) es)"

lemma told_mset: "told es p k = size (filter_mset (\<lambda>e. event_port e = p \<and> event_kind e = kind_text k) (mset es))"
  unfolding told_def mset_filter [symmetric] size_mset ..

lemma told_calls:
  assumes "mset es = image_mset event_of {#e \<in># mset (map observation_of cs). Addr e = a \<and> P e#}"
  shows "told es p k =
    length (filter (\<lambda>c. call_address c = a \<and> call_port c = p \<and> call_kind c = kind_text k \<and> P (observation_of c)) cs)"
proof -
  have "mset es = mset (map event_of (filter (\<lambda>e. Addr e = a \<and> P e) (map observation_of cs)))"
    unfolding assms(1) by simp
  then have "told es p k = told (map event_of (filter (\<lambda>e. Addr e = a \<and> P e) (map observation_of cs))) p k"
    by (simp only: told_mset)
  also have "\<dots> = length (filter (\<lambda>c. call_address c = a \<and> call_port c = p \<and> call_kind c = kind_text k \<and> P (observation_of c)) cs)"
    by (induction cs) (auto simp: told_def event_of_def observation_of_def)
  finally show ?thesis .
qed

lemma noted_calls:
  assumes "notes_of cs = journal_notes S"
  shows "length (filter (\<lambda>c. call_address c = a \<and> call_port c = p \<and> call_kind c = kind_text k) cs) = jots a p k S"
proof -
  have "length (filter (\<lambda>c. call_address c = a \<and> call_port c = p \<and> call_kind c = kind_text k) cs) =
      length (filter (\<lambda>(a', p', k', x). a' = a \<and> p' = p \<and> k' = kind_text k) (notes_of cs))"
    by (simp add: notes_of_def filter_map o_def)
  also have "\<dots> = jots a p k S"
    unfolding assms journal_notes_def jots_def by (simp add: filter_map o_def case_prod_unfold)
  finally show ?thesis .
qed

text \<open>
  The notes of a window are what the journal has grown by: where the calls up to some moment of
  the run are the ones before the cut-off, those from it on are the later notes.
\<close>

lemma noted_since:
  assumes "notes_of old = journal_notes S\<^sub>0" and "notes_of (old @ new) = journal_notes S"
    and "\<forall>c \<in> set old. call_address c = a \<longrightarrow> \<not> P c" and "\<forall>c \<in> set new. call_address c = a \<longrightarrow> P c"
  shows "length (filter (\<lambda>c. call_address c = a \<and> call_port c = p \<and> call_kind c = kind_text k \<and> P c) (old @ new)) + jots a p k S\<^sub>0 =
    jots a p k S"
proof -
  let ?n = "\<lambda>cs. length (filter (\<lambda>c. call_address c = a \<and> call_port c = p \<and> call_kind c = kind_text k) cs)"
  have "filter (\<lambda>c. call_address c = a \<and> call_port c = p \<and> call_kind c = kind_text k \<and> P c) old = []"
    using assms(3) by (auto simp: filter_empty_conv)
  moreover have "filter (\<lambda>c. call_address c = a \<and> call_port c = p \<and> call_kind c = kind_text k \<and> P c) new =
      filter (\<lambda>c. call_address c = a \<and> call_port c = p \<and> call_kind c = kind_text k) new"
    using assms(4) by (auto intro!: filter_cong)
  ultimately show ?thesis
    using noted_calls [OF assms(1), of a p k] noted_calls [OF assms(2), of a p k] by simp
qed

end
