(* ===== verification/Deployment.thy ===== *)
theory Deployment
  imports Whole
begin

text \<open>
  Both binaries at work on one directory: their starts and their calls of \<open>record\<close> interleave
  in any order, each on the file of its own, and the page of the main binary reads both.
\<close>

section \<open>Two writers, one directory\<close>









section \<open>Each writer keeps its own file\<close>

text \<open>A writer, if there is one, has its file's name and keeps all calls while they fit.\<close>

definition tracks :: "string \<Rightarrow> call list \<Rightarrow> observer option \<Rightarrow> dir \<Rightarrow> bool" where
  "tracks name cs w d \<longleftrightarrow>
     (\<forall>ob. w = Some ob \<longrightarrow> obs_name ob = name \<and>
       (\<exists>kept. holds kept (ob, d) \<and> (volume (marshalled cs) \<le> observationCeiling \<longrightarrow> kept = marshalled cs)))"

lemma tracks_none [simp]: "tracks name cs None d"
  by (simp add: tracks_def)















section \<open>Reading both files\<close>


section \<open>What the page is told of both\<close>












end
