(* ===== verification/Lifecycle.thy ===== *)
theory Lifecycle
  imports Startup_Props
begin

text \<open>
  What becomes of the two processes when one of their listeners stops. The main binary notes a
  WebTransport listener that stops and goes on with the others; only its two TCP servers take
  it down. The legacy binary ends with the first of its five rungs: each reports its error on
  a channel, and \<open>main\<close> waits for the first.
\<close>

section \<open>The main binary\<close>

text \<open>
  The listeners still answering, the lines logged for those that stopped, and the error of the
  \<open>log.Fatal\<close> that ended the process; an error is \<open>None\<close> where the Go value is \<open>nil\<close>.
\<close>

record 'k lab_life =
  answering :: "'k listener multiset"
  stop_lines :: "(int \<times> string) list"
  lab_exit :: "string option option"

definition lab_up :: "'k main_process \<Rightarrow> 'k lab_life" where
  "lab_up P = \<lparr>answering = mset (wt_listeners P), stop_lines = [], lab_exit = None\<rparr>"

text \<open>The goroutine of \<open>startWT\<close> after \<open>ListenAndServe\<close>.\<close>

definition wt_stopped :: "'k listener \<Rightarrow> string option \<Rightarrow> 'k lab_life \<Rightarrow> 'k lab_life" where
  "wt_stopped l err L =
     (let L = L\<lparr>answering := answering L - {#l#}\<rparr> in
      case err of
        None \<Rightarrow> L
      | Some e \<Rightarrow> L\<lparr>stop_lines := stop_lines L @ [(listen_port l, e)]\<rparr>)"

text \<open>The CA server and the page server run inside a \<open>log.Fatal\<close>.\<close>

definition ca_stopped :: "string option \<Rightarrow> 'k lab_life \<Rightarrow> 'k lab_life" where
  "ca_stopped err L = L\<lparr>lab_exit := Some err\<rparr>"

definition page_stopped :: "string option \<Rightarrow> 'k lab_life \<Rightarrow> 'k lab_life" where
  "page_stopped err L = L\<lparr>lab_exit := Some err\<rparr>"

text \<open>A server of the process that has stopped, with what its \<open>ListenAndServe\<close> returned.\<close>

datatype 'k lab_fall = Wt_fell "'k listener" "string option" | Ca_fell "string option" | Page_fell "string option"

text \<open>A life of the process, with what has stopped so far, in order.\<close>

inductive lab_lives :: "'k main_process \<Rightarrow> 'k lab_fall list \<Rightarrow> 'k lab_life \<Rightarrow> bool" for P where
  lab_starts: "lab_lives P [] (lab_up P)"
| lab_wt: "lab_lives P falls L \<Longrightarrow> lab_exit L = None \<Longrightarrow> l \<in># answering L \<Longrightarrow>
    lab_lives P (falls @ [Wt_fell l err]) (wt_stopped l err L)"
| lab_ca: "lab_lives P falls L \<Longrightarrow> lab_exit L = None \<Longrightarrow> lab_lives P (falls @ [Ca_fell err]) (ca_stopped err L)"
| lab_page: "lab_lives P falls L \<Longrightarrow> lab_exit L = None \<Longrightarrow> lab_lives P (falls @ [Page_fell err]) (page_stopped err L)"

text \<open>The listeners that fell with their errors, and whether both TCP servers still stand.\<close>

definition wt_fallen :: "'k lab_fall list \<Rightarrow> ('k listener \<times> string option) list" where
  "wt_fallen falls = [(l, err). Wt_fell l err \<leftarrow> falls]"

fun tcp_stand :: "'k lab_fall list \<Rightarrow> bool" where
  "tcp_stand [] = True"
| "tcp_stand (Wt_fell l err # falls) = tcp_stand falls"
| "tcp_stand (Ca_fell err # falls) = False"
| "tcp_stand (Page_fell err # falls) = False"

lemma tcp_stand_append [simp]: "tcp_stand (fs @ gs) \<longleftrightarrow> tcp_stand fs \<and> tcp_stand gs"
  by (induction fs rule: tcp_stand.induct) simp_all

lemma wt_stopped_simps [simp]:
  "lab_exit (wt_stopped l err L) = lab_exit L"
  "answering (wt_stopped l err L) = answering L - {#l#}"
  "stop_lines (wt_stopped l err L) = stop_lines L @ (case err of None \<Rightarrow> [] | Some e \<Rightarrow> [(listen_port l, e)])"
  by (simp_all add: wt_stopped_def Let_def split: option.split)

lemma wt_fallen_simps [simp]:
  "wt_fallen [] = []" "wt_fallen (falls @ [Wt_fell l err]) = wt_fallen falls @ [(l, err)]"
  "wt_fallen (falls @ [Ca_fell err]) = wt_fallen falls" "wt_fallen (falls @ [Page_fell err]) = wt_fallen falls"
  by (simp_all add: wt_fallen_def)

text \<open>What a life shows: who answers, what was logged, and whether the process is still there.\<close>

lemma lab_lives_spec:
  assumes "lab_lives P falls L"
  shows "answering L + mset (map fst (wt_fallen falls)) = mset (wt_listeners P)"
    and "stop_lines L = [(listen_port l, e). (l, Some e) \<leftarrow> wt_fallen falls]"
    and "lab_exit L = None \<longleftrightarrow> tcp_stand falls"
proof -
  show "answering L + mset (map fst (wt_fallen falls)) = mset (wt_listeners P)"
    using assms
  proof (induction)
    case (lab_wt falls L l err)
    show ?case using lab_wt(3) by (simp flip: lab_wt(4))
  qed (simp_all add: lab_up_def ca_stopped_def page_stopped_def)
  show "stop_lines L = [(listen_port l, e). (l, Some e) \<leftarrow> wt_fallen falls]" "lab_exit L = None \<longleftrightarrow> tcp_stand falls"
    using assms by (induction) (auto simp: lab_up_def ca_stopped_def page_stopped_def split: option.split)
qed

section \<open>The legacy binary\<close>

text \<open>
  The rungs still serving, the errors of rungs that have returned but not yet been sent, the
  channel \<open>errs\<close>, and the error \<open>main\<close> ended with.
\<close>

record 'k legacy_life =
  rungs_up :: "'k rung multiset"
  unsent :: "string option multiset"
  errs :: "string option list"
  legacy_exit :: "string option option"

definition legacy_up :: "'k rung list \<Rightarrow> 'k legacy_life" where
  "legacy_up rungs = \<lparr>rungs_up = mset rungs, unsent = {#}, errs = [], legacy_exit = None\<rparr>"

definition rung_returns :: "'k rung \<Rightarrow> string option \<Rightarrow> 'k legacy_life \<Rightarrow> 'k legacy_life" where
  "rung_returns g err L = L\<lparr>rungs_up := rungs_up L - {#g#}, unsent := add_mset err (unsent L)\<rparr>"

text \<open>A send on the channel, which has room for five, and the receive of \<open>main\<close>; \<open>None\<close> is to wait.\<close>

definition send_err :: "string option \<Rightarrow> 'k legacy_life \<Rightarrow> 'k legacy_life option" where
  "send_err err L =
     (if length (errs L) < 5 then Some (L\<lparr>unsent := unsent L - {#err#}, errs := errs L @ [err]\<rparr>) else None)"

definition first_err :: "'k legacy_life \<Rightarrow> 'k legacy_life option" where
  "first_err L = (case errs L of [] \<Rightarrow> None | err # es \<Rightarrow> Some (L\<lparr>errs := es, legacy_exit := Some err\<rparr>))"

text \<open>The steps the process takes of itself.\<close>

inductive legacy_moves :: "'k legacy_life \<Rightarrow> 'k legacy_life \<Rightarrow> bool" where
  moves_send: "legacy_exit L = None \<Longrightarrow> err \<in># unsent L \<Longrightarrow> send_err err L = Some L' \<Longrightarrow> legacy_moves L L'"
| moves_fatal: "legacy_exit L = None \<Longrightarrow> first_err L = Some L' \<Longrightarrow> legacy_moves L L'"

inductive legacy_lives :: "'k rung list \<Rightarrow> ('k rung \<times> string option) list \<Rightarrow> 'k legacy_life \<Rightarrow> bool" for rungs where
  legacy_starts: "legacy_lives rungs [] (legacy_up rungs)"
| legacy_returns: "legacy_lives rungs down L \<Longrightarrow> legacy_exit L = None \<Longrightarrow> g \<in># rungs_up L \<Longrightarrow>
    legacy_lives rungs (down @ [(g, err)]) (rung_returns g err L)"
| legacy_moves: "legacy_lives rungs down L \<Longrightarrow> legacy_moves L L' \<Longrightarrow> legacy_lives rungs down L'"

text \<open>
  The ledger of a life: a rung serves or has returned, and the error it returned is about to be
  sent, in the channel, or the one the process ended with.
\<close>

definition ended_with :: "string option option \<Rightarrow> string option multiset" where
  "ended_with x = (case x of None \<Rightarrow> {#} | Some err \<Rightarrow> {#err#})"

lemma legacy_moves_keep:
  assumes "legacy_moves L L'"
  shows "rungs_up L' = rungs_up L"
    and "unsent L' + mset (errs L') + ended_with (legacy_exit L') = unsent L + mset (errs L) + ended_with (legacy_exit L)"
  using assms
  by (auto simp: legacy_moves.simps send_err_def first_err_def ended_with_def split: if_splits list.splits
      dest!: multi_member_split)

lemma legacy_ledger:
  assumes "legacy_lives rungs down L"
  shows "rungs_up L + mset (map fst down) = mset rungs"
    and "unsent L + mset (errs L) + ended_with (legacy_exit L) = mset (map snd down)"
proof -
  show "rungs_up L + mset (map fst down) = mset rungs"
    using assms
  proof (induction)
    case (legacy_returns down L g err)
    show ?case using legacy_returns(3) by (simp add: rung_returns_def flip: legacy_returns(4))
  qed (simp_all add: legacy_up_def legacy_moves_keep)
  show "unsent L + mset (errs L) + ended_with (legacy_exit L) = mset (map snd down)"
    using assms
    by (induction) (simp_all only: legacy_moves_keep, simp_all add: legacy_up_def rung_returns_def ended_with_def)
qed

text \<open>With five rungs the channel has room for every error, so no send waits.\<close>

lemma send_never_waits:
  assumes "legacy_lives rungs down L" and "length rungs \<le> 5" and "err \<in># unsent L"
  shows "send_err err L \<noteq> None"
proof -
  have "size (rungs_up L) + length down = length rungs" "size (unsent L) + length (errs L) \<le> length down"
    using legacy_ledger [OF assms(1), THEN arg_cong [of _ _ size]] by auto
  moreover have "0 < size (unsent L)" using assms(3) by (cases "unsent L") auto
  ultimately show ?thesis using assms(2) by (simp add: send_err_def)
qed

text \<open>The steps left to the process itself, one less after each, and none to take only at its end.\<close>

definition moves_left :: "'k legacy_life \<Rightarrow> nat" where
  "moves_left L = (if legacy_exit L = None then Suc (size (unsent L)) else 0)"

lemma legacy_moves_less: "legacy_moves L L' \<Longrightarrow> moves_left L' < moves_left L"
  by (auto simp: legacy_moves.simps moves_left_def send_err_def first_err_def split: if_splits list.splits
      dest!: multi_member_split)

lemma legacy_moves_bounded: "(legacy_moves ^^ n) L L' \<Longrightarrow> n + moves_left L' \<le> moves_left L"
proof (induction n arbitrary: L')
  case (Suc n)
  then obtain K where "(legacy_moves ^^ n) L K" "legacy_moves K L'" by auto
  then show ?case using Suc.IH [of K] legacy_moves_less [of K L'] by simp
qed simp

lemma legacy_moves_lives: "(legacy_moves ^^ n) L L' \<Longrightarrow> legacy_lives rungs down L \<Longrightarrow> legacy_lives rungs down L'"
  by (induction n arbitrary: L') (auto intro: legacy_moves)

lemma legacy_not_stuck:
  assumes "legacy_lives rungs down L" and "length rungs \<le> 5" and "down \<noteq> []" and "legacy_exit L = None"
  shows "\<exists>L'. legacy_moves L L'"
proof (cases "errs L")
  case (Cons err es)
  then show ?thesis using assms(4) by (auto simp: first_err_def intro!: exI moves_fatal)
next
  case Nil
  have "unsent L \<noteq> {#}" using legacy_ledger(2) [OF assms(1)] assms(3,4) Nil by (auto simp: ended_with_def)
  then obtain err where e: "err \<in># unsent L" by blast
  then show ?thesis using send_never_waits [OF assms(1,2) e] assms(4) by (blast intro: moves_send)
qed

section \<open>Properties\<close>

lemma main_start_listeners:
  assumes "main_start C fl io m\<^sub>0 m\<^sub>1 m\<^sub>2 d shared = (Inr P, d', shared')"
  shows "wt_listeners P = main_listeners fl (wt_cert (keys_served P))"
  using assms by (auto simp: main_start_def split: if_splits option.splits prod.splits sum.splits)

text \<open>
  C19: One port failing does not take the others down: in every life of the main binary each of
  its three listeners answers until it stops itself, the log names the ports that stopped with
  an error in order, and the process is there as long as both of its TCP servers are.
\<close>

theorem one_port_down:
  assumes "main_start C fl io m\<^sub>0 m\<^sub>1 m\<^sub>2 d shared = (Inr P, d', shared')" and "lab_lives P falls L"
  shows "answering L + mset (map fst (wt_fallen falls)) = mset (main_listeners fl (wt_cert (keys_served P))) \<and>
    stop_lines L = [(listen_port l, e). (l, Some e) \<leftarrow> wt_fallen falls] \<and> (lab_exit L = None \<longleftrightarrow> tcp_stand falls)"
  using lab_lives_spec [OF assms(2)] main_start_listeners [OF assms(1)] by simp

theorem one_port_down_witness:
  "\<exists>P L. lab_lives P [Wt_fell (startWT '''' \<lparr>chain = [''wt-lab''], priv = ()\<rparr> 443 None) (Some ''permission denied'')] L \<and>
    size (answering L) = 2 \<and> stop_lines L = [(443, ''permission denied'')] \<and> lab_exit L = None"
proof -
  let ?c = "\<lparr>chain = [''wt-lab''], priv = ()\<rparr>"
  let ?l = "startWT '''' ?c 443 None" and ?e = "Some ''permission denied''"
  obtain P d' shared' where P: "main_start toy_crypto main_defaults toy_io (toy_draw 0) (toy_draw 0) (toy_draw 0) [] [] = (Inr P, d', shared')"
      "wt_cert (keys_served P) = ?c" using toy_start by blast
  have "?l \<in># answering (lab_up P)"
    by (simp add: lab_up_def main_start_listeners [OF P(1)] P(2) main_listeners_def main_defaults_def)
  then have L: "lab_lives P [Wt_fell ?l ?e] (wt_stopped ?l ?e (lab_up P))"
    using lab_wt [OF lab_starts, of P ?l ?e] by (simp add: lab_up_def)
  note down = one_port_down [OF P(1) L, unfolded P(2)]
  then have "size (answering (wt_stopped ?l ?e (lab_up P))) + 1 = 3"
    by (auto simp: wt_fallen_def main_listeners_def dest: arg_cong [of _ _ size] simp del: wt_stopped_simps)
  then show ?thesis
    using L down by (intro exI [of _ P] exI [of _ "wt_stopped ?l ?e (lab_up P)"]) (simp add: wt_fallen_def startWT_def)
qed

text \<open>
  C18: The legacy binary is never left half served: once one of its rungs has returned, whatever
  the others do, the process can take a step of its own until it has ended, no error it has to
  report waits for room in the channel, at most six such steps are left, and it ends with an
  error that one of its rungs returned; as long as none has, all five serve.
\<close>

theorem legacy_dies_with_rung:
  assumes "legacy_start C fl io m\<^sub>1 m\<^sub>2 d = (Inr (ob, rungs), d')" and "legacy_lives rungs down L"
  shows "rungs_up L + mset (map fst down) = mset rungs \<and> (\<forall>err. legacy_exit L = Some err \<longrightarrow> err \<in> set (map snd down)) \<and>
    (\<forall>n L'. down \<noteq> [] \<longrightarrow> (legacy_moves ^^ n) L L' \<longrightarrow>
      n \<le> 6 \<and> (\<forall>err \<in># unsent L'. send_err err L' \<noteq> None) \<and> (legacy_exit L' = None \<longrightarrow> (\<exists>L''. legacy_moves L' L'')))"
proof -
  have five: "length rungs \<le> 5"
    using legacy_start_published [OF assms(1)] by (auto simp: legacy_rungs_def)
  note ledger = legacy_ledger [OF assms(2)]
  have "err \<in> set (map snd down)" if "legacy_exit L = Some err" for err
    using arg_cong [OF ledger(2), of set_mset] that by (auto simp: ended_with_def)
  moreover have "n \<le> 6" if "(legacy_moves ^^ n) L L'" for n L'
  proof -
    have "size (unsent L) \<le> length down" "length down \<le> length rungs"
      using arg_cong [OF ledger(1), of size] arg_cong [OF ledger(2), of size] by auto
    then show ?thesis using legacy_moves_bounded [OF that] five by (simp add: moves_left_def split: if_splits)
  qed
  ultimately show ?thesis
    using ledger(1) legacy_moves_lives [OF _ assms(2)] send_never_waits [OF _ five] legacy_not_stuck [OF _ five]
    by (metis (no_types, lifting))
qed

theorem legacy_dies_with_rung_witness:
  "\<exists>rungs g L L'. g \<in> set rungs \<and> legacy_lives rungs [(g :: unit rung, Some ''address in use'')] L \<and>
    (legacy_moves ^^ 2) L L' \<and> legacy_exit L' = Some (Some ''address in use'') \<and> (2 :: nat) \<le> 6"
proof -
  let ?e = "Some ''address in use''"
  obtain ob rungs d' where l: "legacy_start toy_crypto legacy_defaults toy_legacy_io (toy_draw 0) (toy_draw 0) [] = (Inr (ob, rungs), d')"
    using toy_legacy_start by auto
  obtain real pinned certSign where r: "rungs = legacy_rungs legacy_defaults real pinned certSign"
    using legacy_start_published [OF l] by blast
  let ?g = "hd rungs"
  have g: "?g \<in> set rungs" by (simp add: r legacy_rungs_def)
  let ?L = "rung_returns ?g ?e (legacy_up rungs)"
  let ?M = "?L\<lparr>unsent := {#}, errs := [?e]\<rparr>" and ?N = "?L\<lparr>unsent := {#}, errs := [], legacy_exit := Some ?e\<rparr>"
  have L: "legacy_lives rungs [(?g, ?e)] ?L"
    using legacy_returns [OF legacy_starts [of rungs], of ?g ?e] g by (simp add: legacy_up_def)
  have "legacy_moves ?L ?M" by (rule moves_send [where err = ?e]) (simp_all add: rung_returns_def legacy_up_def send_err_def)
  moreover have "legacy_moves ?M ?N" by (rule moves_fatal) (simp_all add: rung_returns_def legacy_up_def first_err_def)
  ultimately have m: "(legacy_moves ^^ 2) ?L ?N" by (auto simp: numeral_2_eq_2)
  have "2 \<le> (6 :: nat)" using legacy_dies_with_rung [OF l L] m by blast
  with g L m show ?thesis by (intro exI [of _ rungs] exI [of _ ?g] exI [of _ ?L] exI [of _ ?N]) simp
qed

end
