(* ===== verification/Spec2Isabelle.thy ===== *)
theory Spec2Isabelle
  imports Proxy_Facts Deployment Lifecycle
begin

text \<open>
  A verification development for the public WebTransport echo service: the main binary
  (\<open>main.go\<close>, \<open>observe.go\<close>, \<open>pages.go\<close>, \<open>proxy.go\<close>) and the legacy binary
  (\<open>legacy/main.go\<close>, \<open>legacy/observe.go\<close>), which run side by side on one machine and share a
  directory.

  The program. Each binary listens on several UDP ports for WebTransport. A request for
  \<open>/echo\<close> is admitted by the budget guard of its process (\<open>budgets\<close>: sessions per address, a
  daily egress ceiling), upgraded to a session, and echoed by \<open>serveEcho\<close> until a byte budget,
  the ceiling, a lifetime or the peer ends it. Every step of a connection is noted by the
  \<open>observer\<close> of the process in a file of its own in the shared directory. The main binary
  also serves the pages over TCP, behind a proxy whose PROXY header restores the client's
  address; the page asks \<open>/observed\<close> what all listeners saw from its address, and
  \<open>/hash\<close> with a port for the hash of the certificate a rung of the legacy binary serves,
  which that binary leaves in the shared directory at its start.

  The theories, in the order of their imports.

  \<^item> \<open>Prelude\<close>: instants and durations in nanoseconds, the pair of clock readings a call of the
    guard makes, int64 wrap-around, counts in maps, the collections of simplification rules.
  \<^item> \<open>GoText\<close>, \<open>GoNum\<close>, \<open>GoTime\<close>, \<open>GoJson\<close>, \<open>GoEncode\<close>, \<open>GoHttp\<close>: what the source uses of
    \<open>strings\<close>, \<open>strconv\<close>, \<open>time\<close> (RFC 3339), \<open>encoding/json\<close>, \<open>encoding/base64\<close>,
    \<open>crypto/sha256\<close>, \<open>net/http\<close> and \<open>net/url\<close>, with the round trips between printing and
    parsing. \<open>NetIP\<close> and \<open>NetIP_RoundTrip\<close>: \<open>net.ParseIP\<close>, \<open>IP.String\<close> and \<open>IP.To4\<close>.
  \<^item> \<open>Guard\<close>: the contract of a budget guard as two locales, the slot ledger and the egress
    meter, and what follows from it. \<open>Budgets\<close> is the guard of \<open>main.go\<close>,
    \<open>Legacy_Budgets\<close> that of \<open>legacy/main.go\<close> with its flow-control probe; both interpret
    the locales, and the second refines the first.
  \<^item> \<open>Address\<close>: \<open>addressOf\<close>, \<open>normalizeAddress\<close>, \<open>clientAddress\<close>, under whose keys sessions
    are recorded and looked up.
  \<^item> \<open>Proxy\<close>, \<open>Proxy_Facts\<close>: \<open>proxy.go\<close>, over a reader with a buffer, a deadline and arrivals
    with their times; a read takes at least one segment or ends.
  \<^item> \<open>Observe\<close>, \<open>Observe_Facts\<close>, \<open>Observe_Props\<close>, \<open>Legacy_Observe\<close>: the observers of both
    binaries with their I/O failures, and the reader over the shared directory.
  \<^item> \<open>Echo\<close>, \<open>Echo_Facts\<close>: \<open>echoStream\<close> as a function of what the stream returns, and
    \<open>serveEcho\<close> as a step relation over its goroutines: the loops of the streams and of the
    datagrams, the accept loop, the supervisor, the clock and the peer. The two atomic
    operations of the \<open>spend\<close> closure are separate steps.
  \<^item> \<open>Server\<close>, \<open>Server_Facts\<close>: connections, requests and sessions of a process interleaved
    over one guard, stated for any guard operations; the locale \<open>echo_server\<close> extends the two
    of \<open>Guard\<close>. \<open>Service\<close> instantiates it with both binaries, \<open>Service_Props\<close> holds the
    properties of the service.
  \<^item> \<open>Pages\<close>, \<open>Pages_Json\<close>, \<open>Pages_Props\<close>: \<open>pages.go\<close> and the page and CA handlers of
    \<open>main\<close>; the JSON of \<open>/observed\<close> written and read back.
  \<^item> \<open>Certs\<close>, \<open>Startup\<close>, \<open>Startup_Props\<close>: the certificates of both binaries, the CA on disk,
    the certificate modes, the listeners and the published hashes.
  \<^item> \<open>Whole\<close>: the notes a running process makes, as calls of its observer, and how many of them
    a window holds.
    \<open>Deployment\<close>: both processes recording into the shared directory in any interleaving, with
    restarts, and the page that reads both files.

  How state corresponds. A struct is a record with the struct's fields (\<open>budgets\<close>,
  \<open>observer\<close>, \<open>page\<close>, \<open>proxyConn\<close>); a Go map is a partial function; a mutex-protected method
  is one function on the record, so that a run is any sequence of calls; goroutines are
  interleaved step by step. Errors, panics and \<open>log.Fatal\<close> are values (\<open>option\<close> or
  \<open>fault + 'a\<close>). int64 counters wrap through \<open>wrap64\<close>; where a property needs the counter not
  to have wrapped it says so, with the bytes offered below \<open>2^63\<close>. Names of the legacy binary's
  copies carry the prefix \<open>legacy\<close>.

  What the properties show. The guard: its counts are the open sessions, at most four of an
  address and one probe, and what it grants within a window stays below the ceiling. The
  service: the same for every run of either binary with all its handlers and sessions, the
  bytes sent to a session and by all of them in any window, the faithfulness of the echo, the
  truth of each reason a session is closed with, the release of the slot, and the balance of
  the journal. The page: it meets its session under one key through the proxy, what both
  processes recorded in the last thirty seconds is what it is told, and adds up with what was
  under way when they began, as long as the lines since a start fit in the ceiling of the
  file; every path is answered, nothing else of the shared directory is revealed, and the
  hashes given out are those of the certificates served. The processes: the main binary outlives
  any of its UDP ports, the legacy binary ends with the first of its rungs; a CA file that was
  not written whole stops every later start.

  Fuel and loops. The JSON parser takes twice the text's length as fuel, since every call
  consumes a unit and two calls at one depth a byte; the round trips show it is enough for every
  document the program writes. The proxy's reader recurses on the arrivals left. The legacy
  copy of \<open>splitComma\<close> counts its iterations, one per index and one past the end.

  Parameters. \<open>html/template\<close> (the bytes a template writes), \<open>http.FileServer\<close>, keys,
  signatures and the formats of \<open>crypto/x509\<close> and \<open>encoding/pem\<close>; that PEM blocks and marshalled
  keys are read back is the hypothesis \<open>formats_ok\<close>. \<open>quic-go\<close> and \<open>webtransport-go\<close> are the
  nondeterminism of the steps: what arrives, what a write returns, when \<open>Upgrade\<close> fails.

  Not modelled. Sockets, the qlog tracer, log lines other than the ceiling's alarm, the TLS
  hello hook, the Rust listener, the scripts and the browser's side. \<open>sort.Slice\<close> may order
  events of equal time in any way; the model keeps their order, and no property depends on it.
  A time in a file with an offset of its own is an instant here and printed in UTC; observers
  write UTC only. The Rust listener records nothing; where a property states all the
  page is told, it says that the observers' files are those of the two Go binaries.
\<close>

section \<open>Properties that span components\<close>

text \<open>
  C7: The session and the page that asks about it meet under one key: when the proxy in front
  of the page server announces a client in a v1 header, the page server's lookup key for a
  request without forwarding headers is the key the UDP listeners record for the same client,
  whatever the two source ports are.
\<close>

theorem page_finds_session:
  assumes "family \<noteq> []" "\<forall>x \<in> set family. graphic x" and "is_addr ip" "is_addr dst" and "sport < 65536"
    and "in_time (now + 10 * second) (arrivals c) = v1_line family ip dst sport dport @ payload"
    and "h ''Fly-Client-Ip'' = None" "h ''X-Forwarded-For'' = None"
  shows "\<exists>w. proxy_accept now (Inr c) = Some (Inr w) \<and>
    clientAddress h (sock_text (proxy_remote_addr w)) =
      addressOf (sock_text \<lparr>sa_ip = ip, sa_port = udp_port, sa_zone = ''''\<rparr>)"
proof -
  obtain w where w: "newProxyConn now c = Some w"
      "remote w = Some \<lparr>sa_ip = to16 ip, sa_port = int sport, sa_zone = ''''\<rparr>"
    using newProxyConn_spec [of now c] v1_header_spec [OF assms(1-5), of dport payload]
    unfolding assms(6) by auto
  have "clientAddress h (sock_text (proxy_remote_addr w)) = address_key ip"
    using assms(3,7,8) w(2)
    by (simp add: clientAddress_def header_get_proxy proxy_remote_addr_def addressOf_sock
        is_addr_to16 address_key_to16)
  with w(1) assms(3) show ?thesis by (simp add: proxy_accept_def addressOf_sock)
qed

theorem page_finds_session_witness:
  "\<exists>w. proxy_accept 0 (Inr \<lparr>peer = local_peer,
        arrivals = [(1, v1_line ''TCP4'' [byte 203, byte 0, byte 113, byte 5] loopback_v4 51000 443)],
        closes = None, deadline = None\<rparr>) = Some (Inr w) \<and>
    clientAddress Map.empty (sock_text (proxy_remote_addr w)) =
      addressOf (sock_text \<lparr>sa_ip = [byte 203, byte 0, byte 113, byte 5], sa_port = 40123, sa_zone = ''''\<rparr>)"
proof -
  let ?ip = "[byte 203, byte 0, byte 113, byte 5]"
  let ?c = "\<lparr>peer = local_peer, arrivals = [(1, v1_line ''TCP4'' ?ip loopback_v4 51000 443)],
    closes = None, deadline = None\<rparr>"
  have ip: "is_addr ?ip" by (simp add: is_addr_def)
  have l: "in_time (0 + 10 * second) (arrivals ?c) = v1_line ''TCP4'' ?ip loopback_v4 51000 443 @ ''''"
    by (simp add: in_time_def)
  show ?thesis
    using page_finds_session [OF _ _ ip is_addr_loopback _ l, of Map.empty 40123] by (simp add: graphic_def)
qed

end
